theory Spec2Isabelle
  imports Complex_Main "HOL-Library.Multiset" "HOL-Library.AList"
begin

section \<open>Data model\<close>

text \<open>
  A naive \<^verbatim>\<open>datetime\<close> is represented by the number of microseconds since
  0001-01-01T00:00:00. Comparison of naive datetimes is the comparison of these numbers,
  the difference of two of them is a \<^verbatim>\<open>timedelta\<close> in microseconds, and the calendar
  fields the code reads or replaces (\<^verbatim>\<open>minute\<close>, \<^verbatim>\<open>second\<close>, \<^verbatim>\<open>microsecond\<close>) are
  recovered by division. Python floats are taken as real numbers (finite values, exact
  arithmetic).
\<close>

type_synonym datetime = int

text \<open>\<^verbatim>\<open>TradeData\<close> of \<^verbatim>\<open>ingestion/binance_websocket.py\<close>.\<close>

record TradeData =
  symbol :: string
  timestamp :: datetime
  price :: real
  size' :: real

text \<open>\<^verbatim>\<open>OHLCData\<close> of \<^verbatim>\<open>analytics/models.py\<close>; the field names carry the prefix
  \<open>o_\<close>.\<close>

record OHLCData =
  o_symbol :: string
  o_interval :: string
  o_timestamp :: datetime
  o_open :: real
  o_high :: real
  o_low :: real
  o_close :: real
  o_volume :: real
  o_trade_count :: nat

datatype error = ValueError string

datatype log_entry = LogError string | LogWarning string

section \<open>Resampler: the OHLC bar of one bucket\<close>

text \<open>Python's \<^verbatim>\<open>max\<close> and \<^verbatim>\<open>min\<close> of a non-empty list, scanning from the left.\<close>

fun py_max :: "real list \<Rightarrow> real" where
  "py_max [] = 0"
| "py_max (x # xs) = fold max xs x"

fun py_min :: "real list \<Rightarrow> real" where
  "py_min [] = 0"
| "py_min (x # xs) = fold min xs x"

text \<open>
  \<^verbatim>\<open>TickResampler._compute_ohlc\<close>: no bar for an empty list; otherwise the ticks are
  sorted by timestamp with Python's stable sort (\<^const>\<open>sort_key\<close> is stable too), the
  first and the last price of the sorted list are open and close. \<^verbatim>\<open>py_max\<close> and
  \<^verbatim>\<open>py_min\<close> are only called on the non-empty price list.
\<close>

definition compute_ohlc ::
  "TradeData list \<Rightarrow> string \<Rightarrow> string \<Rightarrow> datetime \<Rightarrow> OHLCData option" where
  "compute_ohlc ticks symb interval bucket_start =
     (if ticks = [] then None
      else
        let sorted_ticks = sort_key timestamp ticks;
            prices = map price sorted_ticks
        in Some \<lparr>o_symbol = symb, o_interval = interval, o_timestamp = bucket_start,
                 o_open = price (hd sorted_ticks),
                 o_high = py_max prices,
                 o_low = py_min prices,
                 o_close = price (last sorted_ticks),
                 o_volume = sum_list (map size' sorted_ticks),
                 o_trade_count = length sorted_ticks\<rparr>)"

section \<open>Storage: batched tick writes and OHLC upserts\<close>

text \<open>
  \<^verbatim>\<open>DatabaseManager\<close> of \<^verbatim>\<open>storage/database.py\<close>. The SQLite connection is outside
  the repository and is modelled by what the code relies on:
  \<^item> \<open>ticks_table\<close> and \<open>ohlc_table\<close> are the committed tables, the first in insertion
    order, the second by its primary key;
  \<^item> \<open>pending\<close> is the open transaction: the statements executed on the connection and
    not yet committed. The code never rolls back, so they stay there until the next
    successful \<^verbatim>\<open>commit\<close>, whichever method issues it;
  \<^item> \<open>conn_ok\<close> says whether the statements and the commit of a write succeed; when
    they do not, \<open>fail_executed\<close> is the number of statements of the write that were
    executed before the exception (all of them when it is the commit that raises).
    The environment may change both between calls.
  \<open>db_log\<close> collects the calls of \<^verbatim>\<open>logger.error\<close>.
\<close>

type_synonym tick_row = "string \<times> datetime \<times> real \<times> real"

datatype statement =
  InsertTick tick_row
  | UpsertOhlc "string \<times> string \<times> datetime" OHLCData

record database =
  conn_ok :: bool
  fail_executed :: nat
  pending :: "statement list"
  tick_buffer :: "TradeData list"
  last_flush :: datetime
  ticks_table :: "tick_row list"
  ohlc_table :: "(string \<times> string \<times> datetime) \<rightharpoonup> OHLCData"
  db_log :: "log_entry list"

definition TICK_BATCH_SIZE :: nat where
  "TICK_BATCH_SIZE = 100"

text \<open>\<^verbatim>\<open>TICK_BATCH_TIMEOUT = 1.0\<close> seconds, in microseconds.\<close>

definition TICK_BATCH_TIMEOUT :: int where
  "TICK_BATCH_TIMEOUT = 1000000"

definition tick_row_of :: "TradeData \<Rightarrow> tick_row" where
  "tick_row_of tick = (symbol tick, timestamp tick, price tick, size' tick)"

text \<open>What a statement does to each table once committed: an insert appends a row, an
  \<^verbatim>\<open>INSERT OR REPLACE\<close> sets the row of its key.\<close>

fun tick_rows :: "statement list \<Rightarrow> tick_row list" where
  "tick_rows [] = []"
| "tick_rows (InsertTick row # sts) = row # tick_rows sts"
| "tick_rows (UpsertOhlc k v # sts) = tick_rows sts"

fun apply_ohlc ::
  "statement list \<Rightarrow> ((string \<times> string \<times> datetime) \<rightharpoonup> OHLCData) \<Rightarrow>
   ((string \<times> string \<times> datetime) \<rightharpoonup> OHLCData)" where
  "apply_ohlc [] t = t"
| "apply_ohlc (InsertTick row # sts) t = apply_ohlc sts t"
| "apply_ohlc (UpsertOhlc k v # sts) t = apply_ohlc sts (t(k \<mapsto> v))"

text \<open>\<^verbatim>\<open>conn.commit()\<close>, succeeding: the open transaction goes into the tables.\<close>

definition commit :: "database \<Rightarrow> database" where
  "commit d =
     d\<lparr>ticks_table := ticks_table d @ tick_rows (pending d),
       ohlc_table := apply_ohlc (pending d) (ohlc_table d),
       pending := []\<rparr>"

text \<open>
  A write of the statements \<open>sts\<close> followed by a commit, as \<^verbatim>\<open>_flush_ticks\<close> and
  \<^verbatim>\<open>insert_ohlc\<close> do inside their \<^verbatim>\<open>try\<close>: either all of it succeeds, or the
  statements executed before the exception stay in the open transaction.
\<close>

definition execute_and_commit :: "database \<Rightarrow> statement list \<Rightarrow> database" where
  "execute_and_commit d sts =
     (if conn_ok d then commit (d\<lparr>pending := pending d @ sts\<rparr>)
      else d\<lparr>pending := pending d @ take (fail_executed d) sts\<rparr>)"

text \<open>
  \<^verbatim>\<open>_flush_ticks\<close>: nothing to do on an empty buffer; a successful batch insert and
  commit clears the buffer and sets \<^verbatim>\<open>last_flush\<close>; an exception is logged and the
  buffer is kept. \<open>now\<close> is the reading of \<^verbatim>\<open>datetime.now()\<close>.
\<close>

definition flush_ticks :: "datetime \<Rightarrow> database \<Rightarrow> database" where
  "flush_ticks now d =
     (if tick_buffer d = [] then d
      else
        let batch_data = map (\<lambda>tick. InsertTick (tick_row_of tick)) (tick_buffer d);
            d1 = execute_and_commit d batch_data
        in if conn_ok d then d1\<lparr>tick_buffer := [], last_flush := now\<rparr>
           else d1\<lparr>db_log := db_log d1 @ [LogError ''Failed to flush ticks'']\<rparr>)"

text \<open>\<^verbatim>\<open>insert_tick\<close>: append, then flush when the buffer is full or the timeout has
  elapsed.\<close>

definition insert_tick :: "datetime \<Rightarrow> database \<Rightarrow> TradeData \<Rightarrow> database" where
  "insert_tick now d tick =
     (let d1 = d\<lparr>tick_buffer := tick_buffer d @ [tick]\<rparr>;
          buffer_full = (length (tick_buffer d1) \<ge> TICK_BATCH_SIZE);
          time_elapsed = now - last_flush d1;
          timeout_reached = (time_elapsed \<ge> TICK_BATCH_TIMEOUT)
      in if buffer_full \<or> timeout_reached then flush_ticks now d1 else d1)"

text \<open>\<^verbatim>\<open>insert_ohlc\<close>: \<^verbatim>\<open>INSERT OR REPLACE\<close> keyed by (symbol, interval, timestamp), then
  a commit; an exception is logged and swallowed.\<close>

definition insert_ohlc :: "database \<Rightarrow> string \<Rightarrow> string \<Rightarrow> OHLCData \<Rightarrow> database" where
  "insert_ohlc d symb interval ohlc =
     (let d1 = execute_and_commit d
                 [UpsertOhlc (symb, interval, o_timestamp ohlc)
                    (ohlc\<lparr>o_symbol := symb, o_interval := interval\<rparr>)]
      in if conn_ok d then d1
         else d1\<lparr>db_log := db_log d1 @ [LogError ''Failed to insert OHLC'']\<rparr>)"

text \<open>The OHLC table as the open transaction sees it, which is what the next commit
  leaves.\<close>

definition eff_ohlc :: "database \<Rightarrow> ((string \<times> string \<times> datetime) \<rightharpoonup> OHLCData)" where
  "eff_ohlc d = apply_ohlc (pending d) (ohlc_table d)"

section \<open>Resampler: buckets and their completion\<close>

text \<open>
  The buffers are the nested \<^verbatim>\<open>defaultdict\<close> \<^verbatim>\<open>{symbol: {interval: {bucket_start:
  [ticks]}}}\<close>, as association lists in insertion order (\<^const>\<open>AList.update\<close> replaces
  in place or appends, as assignment to a Python \<^verbatim>\<open>dict\<close> does). Reading a missing key
  of a \<^verbatim>\<open>defaultdict\<close> gives the empty default.
\<close>

type_synonym bucket_map = "(datetime \<times> TradeData list) list"
type_synonym buffers = "(string \<times> (string \<times> bucket_map) list) list"

record resampler =
  db :: database
  intervals :: "string list"
  buffers :: buffers
  rs_log :: "log_entry list"

definition dd_get :: "('k \<times> 'v list) list \<Rightarrow> 'k \<Rightarrow> 'v list" where
  "dd_get d k = (case map_of d k of None \<Rightarrow> [] | Some v \<Rightarrow> v)"

text \<open>The \<^verbatim>\<open>minute\<close> field, and \<^verbatim>\<open>timestamp.replace\<close> with the fields the code sets.\<close>

definition dt_minute :: "datetime \<Rightarrow> int" where
  "dt_minute ts = (ts div 60000000) mod 60"

definition replace_microsecond :: "datetime \<Rightarrow> datetime" where
  "replace_microsecond ts = ts - ts mod 1000000"

definition replace_second_microsecond :: "datetime \<Rightarrow> datetime" where
  "replace_second_microsecond ts = ts - ts mod 60000000"

definition replace_minute_second_microsecond :: "datetime \<Rightarrow> int \<Rightarrow> datetime" where
  "replace_minute_second_microsecond ts m = ts - ts mod 3600000000 + m * 60000000"

text \<open>\<^verbatim>\<open>get_interval_bucket\<close>: the start of the bucket, or \<^verbatim>\<open>ValueError\<close>.\<close>

definition get_interval_bucket :: "datetime \<Rightarrow> string \<Rightarrow> error + datetime" where
  "get_interval_bucket ts interval =
     (if interval = ''1s'' then Inr (replace_microsecond ts)
      else if interval = ''1m'' then Inr (replace_second_microsecond ts)
      else if interval = ''5m'' then
        Inr (replace_minute_second_microsecond ts ((dt_minute ts div 5) * 5))
      else if interval = ''15m'' then
        Inr (replace_minute_second_microsecond ts ((dt_minute ts div 15) * 15))
      else if interval = ''1h'' then Inr (replace_minute_second_microsecond ts 0)
      else Inl (ValueError (''Unsupported interval: '' @ interval)))"

text \<open>
  The loop of \<^verbatim>\<open>_finalize_completed_buckets\<close> over the completed bucket starts: read
  the bucket's ticks, persist the bar if there is one, delete the bucket.
\<close>

fun finalize_loop ::
  "database \<Rightarrow> bucket_map \<Rightarrow> string \<Rightarrow> string \<Rightarrow> datetime list \<Rightarrow> database \<times> bucket_map" where
  "finalize_loop d bm symb interval [] = (d, bm)"
| "finalize_loop d bm symb interval (bucket_start # rest) =
     (let ticks = dd_get bm bucket_start;
          d' = (case compute_ohlc ticks symb interval bucket_start of
                  None \<Rightarrow> d
                | Some ohlc \<Rightarrow> insert_ohlc d symb interval ohlc)
      in finalize_loop d' (AList.delete bucket_start bm) symb interval rest)"

text \<open>A raised exception carries the state as mutated so far.\<close>

definition finalize_completed_buckets ::
  "resampler \<Rightarrow> string \<Rightarrow> string \<Rightarrow> datetime \<Rightarrow> (error \<times> resampler) + resampler" where
  "finalize_completed_buckets r symb interval current_time =
     (case get_interval_bucket current_time interval of
        Inl e \<Rightarrow> Inl (e, r)
      | Inr current_bucket \<Rightarrow>
          let symbol_buffers = dd_get (buffers r) symb;
              symbol_interval_buffers = dd_get symbol_buffers interval;
              completed_buckets =
                filter (\<lambda>bucket_start. bucket_start < current_bucket)
                  (map fst symbol_interval_buffers);
              (d', bm') = finalize_loop (db r) symbol_interval_buffers symb interval
                            completed_buckets
          in Inr (r\<lparr>db := d',
                    buffers := AList.update symb (AList.update interval bm' symbol_buffers)
                                 (buffers r)\<rparr>))"

definition process_tick_for_interval ::
  "resampler \<Rightarrow> TradeData \<Rightarrow> string \<Rightarrow> (error \<times> resampler) + resampler" where
  "process_tick_for_interval r tick interval =
     (case get_interval_bucket (timestamp tick) interval of
        Inl e \<Rightarrow> Inl (e, r)
      | Inr bucket_start \<Rightarrow>
          let symbol_buffers = dd_get (buffers r) (symbol tick);
              symbol_interval_buffers = dd_get symbol_buffers interval;
              bm = AList.update bucket_start
                     (dd_get symbol_interval_buffers bucket_start @ [tick])
                     symbol_interval_buffers;
              r1 = r\<lparr>buffers := AList.update (symbol tick)
                                    (AList.update interval bm symbol_buffers) (buffers r)\<rparr>
          in finalize_completed_buckets r1 (symbol tick) interval (timestamp tick))"

text \<open>The \<^verbatim>\<open>for interval in self.intervals\<close> loop of \<^verbatim>\<open>process_tick\<close>: the first
  exception ends it.\<close>

fun process_intervals ::
  "resampler \<Rightarrow> TradeData \<Rightarrow> string list \<Rightarrow> (error \<times> resampler) + resampler" where
  "process_intervals r tick [] = Inr r"
| "process_intervals r tick (interval # rest) =
     (case process_tick_for_interval r tick interval of
        Inl e \<Rightarrow> Inl e
      | Inr r' \<Rightarrow> process_intervals r' tick rest)"

text \<open>\<^verbatim>\<open>process_tick\<close>: persist the tick, process every interval; an exception is
  logged and not raised again.\<close>

definition process_tick :: "datetime \<Rightarrow> resampler \<Rightarrow> TradeData \<Rightarrow> resampler" where
  "process_tick now r tick =
     (let r1 = r\<lparr>db := insert_tick now (db r) tick\<rparr>
      in case process_intervals r1 tick (intervals r1) of
           Inr r2 \<Rightarrow> r2
         | Inl (ValueError msg, r2) \<Rightarrow>
             r2\<lparr>rs_log := rs_log r2 @ [LogError (''Error processing tick: '' @ msg)]\<rparr>)"

text \<open>A sequence of \<^verbatim>\<open>process_tick\<close> calls, each with the clock reading of its call.\<close>

fun process_ticks :: "resampler \<Rightarrow> (datetime \<times> TradeData) list \<Rightarrow> resampler" where
  "process_ticks r [] = r"
| "process_ticks r ((now, tick) # rest) = process_ticks (process_tick now r tick) rest"

text \<open>\<^verbatim>\<open>flush_remaining\<close>: the three nested loops over the buffers; every bucket's bar
  is persisted and the buffers are not written.\<close>

definition flush_bucket :: "string \<Rightarrow> string \<Rightarrow> datetime \<times> TradeData list \<Rightarrow> database \<Rightarrow> database" where
  "flush_bucket symb interval item d =
     (case compute_ohlc (snd item) symb interval (fst item) of
        None \<Rightarrow> d
      | Some ohlc \<Rightarrow> insert_ohlc d symb interval ohlc)"

definition flush_remaining :: "resampler \<Rightarrow> resampler" where
  "flush_remaining r =
     r\<lparr>db := fold (\<lambda>(symb, symbol_buffers).
                 fold (\<lambda>(interval, bm). fold (flush_bucket symb interval) bm) symbol_buffers)
               (buffers r) (db r)\<rparr>"

text \<open>The bucket starts buffered for a symbol and an interval.\<close>

definition bucket_keys :: "resampler \<Rightarrow> string \<Rightarrow> string \<Rightarrow> datetime set" where
  "bucket_keys r symb interval = fst ` set (dd_get (dd_get (buffers r) symb) interval)"

definition supported_intervals :: "string list" where
  "supported_intervals = [''1s'', ''1m'', ''5m'', ''15m'', ''1h'']"

text \<open>The constructors: \<^verbatim>\<open>DatabaseManager.__init__\<close> followed by a successful
  \<^verbatim>\<open>initialize\<close>, and \<^verbatim>\<open>TickResampler.__init__\<close>.\<close>

definition new_database :: "datetime \<Rightarrow> database" where
  "new_database now =
     \<lparr>conn_ok = True, fail_executed = 0, pending = [], tick_buffer = [], last_flush = now,
      ticks_table = [], ohlc_table = Map.empty, db_log = []\<rparr>"

definition new_resampler :: "database \<Rightarrow> string list \<Rightarrow> resampler" where
  "new_resampler d ivs = \<lparr>db = d, intervals = ivs, buffers = [], rs_log = []\<rparr>"

text \<open>
  Names for the proofs: the state a call ends in, whether it raised or not; the bucket
  map of the tick's symbol and interval once the tick is appended; and the bucket starts
  \<^verbatim>\<open>_finalize_completed_buckets\<close> selects.
\<close>

definition final_state :: "(error \<times> resampler) + resampler \<Rightarrow> resampler" where
  "final_state res = (case res of Inl (e, r) \<Rightarrow> r | Inr r \<Rightarrow> r)"

text \<open>The configured intervals \<^verbatim>\<open>process_tick\<close> gets through: those before the first
  unsupported one, at which the loop ends.\<close>

definition reached :: "string list \<Rightarrow> string list" where
  "reached ivs = takeWhile (\<lambda>j. j \<in> set supported_intervals) ivs"

definition appended :: "resampler \<Rightarrow> TradeData \<Rightarrow> string \<Rightarrow> datetime \<Rightarrow> bucket_map" where
  "appended r tick interval k =
     (let sib = dd_get (dd_get (buffers r) (symbol tick)) interval
      in AList.update k (dd_get sib k @ [tick]) sib)"

definition completed :: "bucket_map \<Rightarrow> datetime \<Rightarrow> datetime list" where
  "completed bm k = filter (\<lambda>b. b < k) (map fst bm)"

section \<open>Ingestion client: bounded queues\<close>

text \<open>
  \<^verbatim>\<open>BinanceWebSocketClient\<close>: one \<^verbatim>\<open>asyncio.Queue(maxsize=BUFFER_SIZE)\<close> and one
  counter per configured symbol. \<open>maxsize\<close> is \<^verbatim>\<open>BUFFER_SIZE\<close>; a queue with
  \<open>maxsize \<le> 0\<close> is unbounded, as in \<^verbatim>\<open>asyncio\<close>. \<open>ws_log\<close> collects the warnings and
  errors logged. The configured symbols are taken in lower case already.
\<close>

record ws_client =
  symbols :: "string list"
  queues :: "string \<rightharpoonup> TradeData list"
  tick_counts :: "string \<rightharpoonup> nat"
  maxsize :: int
  ws_log :: "log_entry list"

definition new_client :: "int \<Rightarrow> string list \<Rightarrow> ws_client" where
  "new_client buffer_size syms =
     \<lparr>symbols = syms,
      queues = (\<lambda>k. if k \<in> set syms then Some [] else None),
      tick_counts = (\<lambda>k. if k \<in> set syms then Some 0 else None),
      maxsize = buffer_size,
      ws_log = []\<rparr>"

text \<open>
  What \<^verbatim>\<open>json.loads\<close>, the check of the event type and the normalisation make of a raw
  message: a message that does not parse (\<^verbatim>\<open>JSONDecodeError\<close>, \<^verbatim>\<open>KeyError\<close>,
  \<^verbatim>\<open>ValueError\<close>), an event that is not a trade, or a trade.
\<close>

datatype ws_message = Malformed | OtherEvent | TradeEvent TradeData

text \<open>\<^verbatim>\<open>asyncio.Queue.full\<close>.\<close>

definition queue_full :: "int \<Rightarrow> TradeData list \<Rightarrow> bool" where
  "queue_full m q = (if m \<le> 0 then False else int (length q) \<ge> m)"

text \<open>
  \<^verbatim>\<open>_handle_message\<close>: \<^verbatim>\<open>put_nowait\<close> raises \<^verbatim>\<open>QueueFull\<close> on a full queue, which is
  logged as a warning; the counter is incremented after a successful put. A symbol with
  no queue or no counter raises \<^verbatim>\<open>KeyError\<close>, logged by the outer handler.
\<close>

definition handle_message :: "ws_client \<Rightarrow> string \<Rightarrow> ws_message \<Rightarrow> ws_client" where
  "handle_message c symb message =
     (case message of
        Malformed \<Rightarrow> c\<lparr>ws_log := ws_log c @ [LogError ''Failed to parse message'']\<rparr>
      | OtherEvent \<Rightarrow> c
      | TradeEvent trade \<Rightarrow>
          (case queues c symb of
             None \<Rightarrow> c\<lparr>ws_log := ws_log c @ [LogError ''Failed to parse message'']\<rparr>
           | Some q \<Rightarrow>
               if queue_full (maxsize c) q
               then c\<lparr>ws_log := ws_log c @ [LogWarning ''Queue full, dropping tick'']\<rparr>
               else
                 let c1 = c\<lparr>queues := (queues c)(symb \<mapsto> q @ [trade])\<rparr>
                 in (case tick_counts c1 symb of
                       None \<Rightarrow> c1\<lparr>ws_log := ws_log c1 @ [LogError ''Failed to parse message'']\<rparr>
                     | Some n \<Rightarrow> c1\<lparr>tick_counts := (tick_counts c1)(symb \<mapsto> n + 1)\<rparr>)))"

text \<open>Messages of one connection, handled in order with no consumer in between.\<close>

fun handle_messages :: "ws_client \<Rightarrow> string \<Rightarrow> ws_message list \<Rightarrow> ws_client" where
  "handle_messages c symb [] = c"
| "handle_messages c symb (m # ms) = handle_messages (handle_message c symb m) symb ms"

section \<open>Statistics: rolling z-score\<close>

text \<open>
  A float of the result: NaN, an infinity, or a number. An input value is a number or
  NaN (\<open>None\<close>).
\<close>

datatype pyfloat = NaN | PInf | NInf | Num real

definition of_input :: "real option \<Rightarrow> pyfloat" where
  "of_input v = (case v of None \<Rightarrow> NaN | Some x \<Rightarrow> Num x)"

fun pf_sub :: "pyfloat \<Rightarrow> pyfloat \<Rightarrow> pyfloat" where
  "pf_sub (Num a) (Num b) = Num (a - b)"
| "pf_sub a b = NaN"

fun pf_div :: "pyfloat \<Rightarrow> pyfloat \<Rightarrow> pyfloat" where
  "pf_div (Num a) (Num b) =
     (if b = 0 then (if a = 0 then NaN else if a > 0 then PInf else NInf) else Num (a / b))"
| "pf_div a b = NaN"

text \<open>
  \<^verbatim>\<open>Series.rolling(window=w)\<close>: the window ending at position \<open>i\<close>, and its valid
  (non-NaN) observations. With the default \<^verbatim>\<open>min_periods = w\<close> a position has a value
  only when the window holds \<open>w\<close> valid observations.
\<close>

definition window_at :: "real option list \<Rightarrow> nat \<Rightarrow> nat \<Rightarrow> real option list" where
  "window_at values w i = take w (drop (Suc i - w) values)"

definition valid_obs :: "real option list \<Rightarrow> real list" where
  "valid_obs win = concat (map (\<lambda>v. case v of None \<Rightarrow> [] | Some x \<Rightarrow> [x]) win)"

definition rolling_mean :: "real option list \<Rightarrow> nat \<Rightarrow> nat \<Rightarrow> pyfloat" where
  "rolling_mean values w i =
     (let obs = valid_obs (window_at values w i)
      in if Suc i < w \<or> length obs < w \<or> obs = [] then NaN
         else Num (sum_list obs / real (length obs)))"

text \<open>\<^verbatim>\<open>.std(ddof=1)\<close>: the sample standard deviation, NaN on fewer than two
  observations.\<close>

definition rolling_std :: "real option list \<Rightarrow> nat \<Rightarrow> nat \<Rightarrow> pyfloat" where
  "rolling_std values w i =
     (let obs = valid_obs (window_at values w i);
          m = sum_list obs / real (length obs)
      in if Suc i < w \<or> length obs < w \<or> length obs < 2 then NaN
         else Num (sqrt (sum_list (map (\<lambda>x. (x - m)\<^sup>2) obs) / real (length obs - 1))))"

text \<open>\<^verbatim>\<open>StatisticsCalculator.compute_zscore\<close>.\<close>

definition compute_zscore :: "real option list \<Rightarrow> nat \<Rightarrow> pyfloat list" where
  "compute_zscore values w =
     (if length values < w then replicate (length values) NaN
      else map (\<lambda>i. pf_div (pf_sub (of_input (values ! i)) (rolling_mean values w i))
                        (rolling_std values w i))
             [0..<length values])"

section \<open>Regression: the sanity gates\<close>

text \<open>The result of \<^verbatim>\<open>scipy.stats.linregress\<close>.\<close>

record linregress_result =
  lr_slope :: real
  lr_intercept :: real
  lr_rvalue :: real
  lr_pvalue :: real
  lr_stderr :: real

text \<open>\<^verbatim>\<open>RegressionResult\<close> of \<^verbatim>\<open>analytics/models.py\<close>, fields prefixed with \<open>rr_\<close>.\<close>

record RegressionResult =
  rr_symbol_x :: string
  rr_symbol_y :: string
  rr_interval :: string
  rr_hedge_ratio :: real
  rr_intercept :: real
  rr_r_squared :: real
  rr_std_error :: real
  rr_residuals :: "real list"
  rr_timestamp :: datetime

text \<open>
  \<^verbatim>\<open>RegressionAnalyzer.compute_ols_hedge_ratio\<close> from the fit on. The retrieval of the
  bars, their alignment on common timestamps and the log returns are not represented:
  \<open>returns\<close> is their outcome, \<open>None\<close> when the function has returned no result before
  the fit, else the two cleaned return series. \<open>linregress\<close> is the library's fit.
\<close>

definition compute_ols_hedge_ratio ::
  "(real list \<Rightarrow> real list \<Rightarrow> linregress_result) \<Rightarrow> datetime \<Rightarrow> string \<Rightarrow> string \<Rightarrow> string \<Rightarrow>
   (real list \<times> real list) option \<Rightarrow> RegressionResult option" where
  "compute_ols_hedge_ratio linregress now symbol_x symbol_y interval returns =
     (case returns of
        None \<Rightarrow> None
      | Some (returns_x_clean, returns_y_clean) \<Rightarrow>
          let fit = linregress returns_x_clean returns_y_clean;
              slope = lr_slope fit;
              intercept = lr_intercept fit;
              std_err = lr_stderr fit;
              r_squared = (lr_rvalue fit)\<^sup>2
          in if \<bar>slope\<bar> > 3.0 then None
             else if r_squared < 0.3 then None
             else if std_err > \<bar>slope\<bar> then None
             else Some \<lparr>rr_symbol_x = symbol_x, rr_symbol_y = symbol_y, rr_interval = interval,
                        rr_hedge_ratio = slope, rr_intercept = intercept,
                        rr_r_squared = r_squared, rr_std_error = std_err,
                        rr_residuals = map2 (\<lambda>x y. y - (intercept + slope * x))
                                         returns_x_clean returns_y_clean,
                        rr_timestamp = now\<rparr>)"

section \<open>Analytics engine: the pairs pipeline\<close>

text \<open>
  The result dictionary of \<^verbatim>\<open>get_pairs_analytics\<close>. The stationarity and correlation
  results are not looked into: they are values of the types \<open>'adf\<close> and \<open>'corr\<close>.
\<close>

record ('adf, 'corr) pairs_result =
  pr_regression :: RegressionResult
  pr_spread :: "real list"
  pr_z_score :: "pyfloat list"
  pr_adf_test :: "'adf option"
  pr_correlation :: "'corr option"
  pr_last_update :: datetime

record ('adf, 'corr) engine =
  cache :: "string \<rightharpoonup> ('adf, 'corr) pairs_result"
  cache_time :: "string \<rightharpoonup> datetime"

text \<open>
  What the sub-analyzers compute from the stored bars at the time of the call:
  the cleaned returns and the fit of the regression, \<^verbatim>\<open>compute_spread\<close>,
  \<^verbatim>\<open>adf_test_on_values\<close> and \<^verbatim>\<open>compute_rolling_correlation\<close>.
\<close>

record ('adf, 'corr) analyzers =
  an_returns :: "string \<Rightarrow> string \<Rightarrow> string \<Rightarrow> (real list \<times> real list) option"
  an_linregress :: "real list \<Rightarrow> real list \<Rightarrow> linregress_result"
  an_spread :: "string \<Rightarrow> string \<Rightarrow> real \<Rightarrow> string \<Rightarrow> real list"
  an_adf :: "real list \<Rightarrow> 'adf option"
  an_corr :: "string \<Rightarrow> string \<Rightarrow> string \<Rightarrow> 'corr option"

text \<open>\<^verbatim>\<open>CACHE_TTL_REGRESSION = 10.0\<close> seconds, in microseconds.\<close>

definition CACHE_TTL_REGRESSION :: int where
  "CACHE_TTL_REGRESSION = 10000000"

definition is_cache_valid :: "('adf, 'corr) engine \<Rightarrow> datetime \<Rightarrow> string \<Rightarrow> int \<Rightarrow> bool" where
  "is_cache_valid e now cache_key ttl =
     (case cache_time e cache_key of None \<Rightarrow> False | Some t \<Rightarrow> now - t < ttl)"

definition get_cached ::
  "('adf, 'corr) engine \<Rightarrow> datetime \<Rightarrow> string \<Rightarrow> int \<Rightarrow> ('adf, 'corr) pairs_result option" where
  "get_cached e now cache_key ttl =
     (if \<not> is_cache_valid e now cache_key ttl then None else cache e cache_key)"

definition set_cache ::
  "('adf, 'corr) engine \<Rightarrow> datetime \<Rightarrow> string \<Rightarrow> ('adf, 'corr) pairs_result \<Rightarrow> ('adf, 'corr) engine" where
  "set_cache e now cache_key v =
     e\<lparr>cache := (cache e)(cache_key \<mapsto> v), cache_time := (cache_time e)(cache_key \<mapsto> now)\<rparr>"

section \<open>Analytics engine: cache keys\<close>

text \<open>Python's \<^verbatim>\<open>sep.join(parts)\<close>.\<close>

fun join :: "string \<Rightarrow> string list \<Rightarrow> string" where
  "join sep [] = []"
| "join sep [x] = x"
| "join sep (x # y # ys) = x @ sep @ join sep (y # ys)"

text \<open>
  \<^verbatim>\<open>AnalyticsEngine._get_cache_key\<close>: the category, a colon, and the arguments joined
  by underscores. The callers pass strings, for which \<^verbatim>\<open>str(arg)\<close> is the argument.
\<close>

definition get_cache_key :: "string \<Rightarrow> string list \<Rightarrow> string" where
  "get_cache_key category args = category @ '':'' @ join ''_'' args"

text \<open>
  \<^verbatim>\<open>AnalyticsEngine.get_pairs_analytics\<close>: the cached result if there is a valid one and
  no refresh is forced; else the regression, the spread (at least 20 points), its z-score
  with window 20, the stationarity test and the correlation; the result is cached.
  \<open>now\<close> is the clock reading of the call.
\<close>

definition get_pairs_analytics ::
  "('adf, 'corr) analyzers \<Rightarrow> ('adf, 'corr) engine \<Rightarrow> datetime \<Rightarrow> string \<Rightarrow> string \<Rightarrow> string \<Rightarrow> bool \<Rightarrow>
   ('adf, 'corr) pairs_result option \<times> ('adf, 'corr) engine" where
  "get_pairs_analytics an e now symbol_x symbol_y interval force_refresh =
     (let cache_key = get_cache_key ''pairs_analytics'' [symbol_x, symbol_y, interval];
          cached = (if force_refresh then None else get_cached e now cache_key CACHE_TTL_REGRESSION)
      in case cached of
           Some c \<Rightarrow> (Some c, e)
         | None \<Rightarrow>
             (case compute_ols_hedge_ratio (an_linregress an) now symbol_x symbol_y interval
                     (an_returns an symbol_x symbol_y interval) of
                None \<Rightarrow> (None, e)
              | Some regression_result \<Rightarrow>
                  let spread = an_spread an symbol_x symbol_y (rr_hedge_ratio regression_result)
                                 interval
                  in if spread = [] \<or> length spread < 20 then (None, e)
                     else
                       let z_scores = compute_zscore (map Some spread) 20;
                           adf_result = an_adf an spread;
                           corr_result = an_corr an symbol_x symbol_y interval;
                           result = \<lparr>pr_regression = regression_result, pr_spread = spread,
                                     pr_z_score = z_scores, pr_adf_test = adf_result,
                                     pr_correlation = corr_result, pr_last_update = now\<rparr>
                       in (Some result, set_cache e now cache_key result)))"

section \<open>Correlation matrix\<close>

text \<open>A dictionary comprehension over a list of pairs: a later pair replaces an earlier
  one with the same key.\<close>

definition dict_of :: "('k \<times> 'v) list \<Rightarrow> ('k \<times> 'v) list" where
  "dict_of kvs = fold (\<lambda>kv d. AList.update (fst kv) (snd kv) d) kvs []"

text \<open>The slice \<^verbatim>\<open>xs[-n:]\<close> for \<open>n \<ge> 0\<close>: the last \<open>n\<close> elements, and the whole list for
  \<open>n = 0\<close>.\<close>

definition last_n :: "nat \<Rightarrow> 'a list \<Rightarrow> 'a list" where
  "last_n n xs = (if n = 0 then xs else drop (length xs - n) xs)"

text \<open>
  The first loop of \<^verbatim>\<open>compute_correlation_matrix\<close>: \<open>get_ohlc\<close> gives the bars the
  database returns for a symbol; a symbol with fewer than \<open>window\<close> bars is skipped.
\<close>

type_synonym price_data = "(string \<times> (datetime \<times> real) list) list"

fun collect_price_data ::
  "(string \<Rightarrow> OHLCData list) \<Rightarrow> nat \<Rightarrow> string list \<Rightarrow> price_data \<Rightarrow> price_data" where
  "collect_price_data get_ohlc window [] pd = pd"
| "collect_price_data get_ohlc window (symb # rest) pd =
     (let bars = get_ohlc symb
      in if length bars < window then collect_price_data get_ohlc window rest pd
         else collect_price_data get_ohlc window rest
                (AList.update symb (dict_of (map (\<lambda>bar. (o_timestamp bar, o_close bar)) bars)) pd))"

text \<open>\<^verbatim>\<open>all_timestamps\<close> is the union of the timestamps of all kept symbols, and
  \<^verbatim>\<open>common_timestamps\<close> its sorted list.\<close>

definition common_timestamps :: "price_data \<Rightarrow> datetime list" where
  "common_timestamps pd = sort (remdups (concat (map (\<lambda>(symb, d). map fst d) pd)))"

text \<open>The second loop: each symbol keeps the timestamps of \<^verbatim>\<open>common_timestamps\<close> it
  has itself.\<close>

definition restrict_price_data :: "price_data \<Rightarrow> price_data" where
  "restrict_price_data pd =
     map (\<lambda>(symb, d). (symb, concat (map (\<lambda>ts. case map_of d ts of None \<Rightarrow> []
                                                  | Some p \<Rightarrow> [(ts, p)])
                                      (common_timestamps pd)))) pd"

text \<open>The timestamps of a symbol's column: the last \<open>window\<close> of its own sorted
  timestamps.\<close>

definition column_timestamps :: "price_data \<Rightarrow> nat \<Rightarrow> string \<Rightarrow> datetime list" where
  "column_timestamps pd window symb = last_n window (sort (map fst (dd_get pd symb)))"

definition df_dict :: "price_data \<Rightarrow> nat \<Rightarrow> string list \<Rightarrow> (string \<times> real list) list" where
  "df_dict pd window syms =
     fold (\<lambda>symb acc.
             if symb \<in> fst ` set pd
             then AList.update symb
                    (concat (map (\<lambda>ts. case map_of (dd_get pd symb) ts of None \<Rightarrow> []
                                         | Some p \<Rightarrow> [p])
                                 (column_timestamps pd window symb))) acc
             else acc)
          syms []"

text \<open>
  \<^verbatim>\<open>compute_correlation_matrix\<close> up to the data frame whose columns \<^verbatim>\<open>df.corr()\<close>
  correlates by position. \<^verbatim>\<open>pd.DataFrame\<close> raises on columns of different lengths,
  which the function turns into no result.
\<close>

definition compute_correlation_matrix ::
  "(string \<Rightarrow> OHLCData list) \<Rightarrow> string list \<Rightarrow> nat \<Rightarrow> (string \<times> real list) list option" where
  "compute_correlation_matrix get_ohlc syms window =
     (let price_data = collect_price_data get_ohlc window syms []
      in if length price_data < 2 then None
         else
           let pd = restrict_price_data price_data;
               cols = df_dict pd window syms
           in if cols = [] then None
              else if \<exists>c\<in>set cols. length (snd c) \<noteq> length (snd (hd cols)) then None
              else Some cols)"

section \<open>The OHLC bar: results\<close>

lemma filter_key_distinct:
  assumes "distinct (map f xs)" "k \<in> set xs"
  shows "filter (\<lambda>x. f k = f x) xs = [k]"
  using assms
proof (induction xs)
  case Nil then show ?case by simp
next
  case (Cons a xs)
  show ?case
  proof (cases "a = k")
    case True
    with Cons.prems have "\<forall>x\<in>set xs. f k \<noteq> f x" by auto
    then have "filter (\<lambda>x. f k = f x) xs = []" by (simp add: filter_empty_conv)
    with True show ?thesis by simp
  next
    case False
    with Cons.prems have k: "k \<in> set xs" and d: "distinct (map f xs)" and "f a \<noteq> f k" by auto
    with Cons.IH show ?thesis by auto
  qed
qed

lemma sort_key_perm_distinct:
  assumes "mset xs' = mset xs" "distinct (map f xs)"
  shows "sort_key f xs' = sort_key f xs"
proof (rule properties_for_sort_key)
  show "mset (sort_key f xs) = mset xs'" using assms(1) by simp
  show "sorted (map f (sort_key f xs))" by simp
  fix k assume "k \<in> set (sort_key f xs)"
  then have k: "k \<in> set xs" by simp
  have d': "distinct (map f xs')"
  proof -
    have "mset (map f xs') = mset (map f xs)" using assms(1) by simp
    then show ?thesis using assms(2) by (rule mset_eq_imp_distinct_iff[THEN iffD2])
  qed
  have k': "k \<in> set xs'" using k assms(1) by (metis mset_eq_setD)
  have ds: "distinct (map f (sort_key f xs))" using assms(2)
  proof -
    have "mset (map f (sort_key f xs)) = mset (map f xs)" by simp
    then show ?thesis using assms(2) by (rule mset_eq_imp_distinct_iff[THEN iffD2])
  qed
  show "filter (\<lambda>x. f k = f x) (sort_key f xs) = filter (\<lambda>x. f k = f x) xs'"
    using filter_key_distinct[OF d' k'] filter_key_distinct[OF ds] k by simp
qed

lemma py_max_Max: "xs \<noteq> [] \<Longrightarrow> py_max xs = Max (set xs)"
  by (cases xs) (simp_all add: Max.set_eq_fold del: set_simps)

lemma py_min_Min: "xs \<noteq> [] \<Longrightarrow> py_min xs = Min (set xs)"
  by (cases xs) (simp_all add: Min.set_eq_fold del: set_simps)

lemma sorted_le_last: "sorted (map f s) \<Longrightarrow> e \<in> set s \<Longrightarrow> f e \<le> f (last s)"
  by (induction s) auto

lemma sort_key_ne: "xs \<noteq> [] \<Longrightarrow> sort_key f xs \<noteq> []"
  by (metis length_0_conv length_sort)

lemma sorted_hd_least: "sorted (map f s) \<Longrightarrow> e \<in> set s \<Longrightarrow> f (hd s) \<le> f e"
  by (cases s) auto

lemma hd_filter_hd: "s \<noteq> [] \<Longrightarrow> P (hd s) \<Longrightarrow> hd (filter P s) = hd s"
  by (cases s) auto

lemma last_filter_last:
  assumes "s \<noteq> []" "P (last s)"
  shows "last (filter P s) = last s"
proof -
  have "hd (filter P (rev s)) = hd (rev s)"
    using assms by (intro hd_filter_hd) (simp_all add: hd_rev)
  then show ?thesis by (simp add: hd_rev rev_filter[symmetric])
qed

lemma hd_sort_key_first_of_least:
  fixes f :: "'a \<Rightarrow> 'b::linorder"
  assumes "xs \<noteq> []"
  shows "hd (sort_key f xs) = hd (filter (\<lambda>t. f t = Min (f ` set xs)) xs)"
proof -
  let ?s = "sort_key f xs" and ?m = "Min (f ` set xs)"
  have ne: "?s \<noteq> []" using assms by (rule sort_key_ne)
  have srt: "sorted (map f ?s)" by simp
  have hin: "hd ?s \<in> set xs" using ne by (metis hd_in_set set_sort)
  have fin: "finite (f ` set xs)" "f ` set xs \<noteq> {}" using assms by auto
  have "?m \<in> f ` set xs" using fin by (rule Min_in)
  then obtain y where y: "y \<in> set xs" "f y = ?m" by auto
  have "f (hd ?s) \<le> ?m" using sorted_hd_least[OF srt, of y] y by simp
  moreover have "?m \<le> f (hd ?s)" using fin(1) hin by (simp add: Min_le)
  ultimately have m: "f (hd ?s) = ?m" by simp
  have "hd (filter (\<lambda>t. f t = ?m) ?s) = hd ?s" using ne m by (rule hd_filter_hd)
  moreover have "filter (\<lambda>t. f t = ?m) ?s = filter (\<lambda>t. f t = ?m) xs"
    by (rule sort_key_stable)
  ultimately show ?thesis by simp
qed

lemma last_sort_key_last_of_greatest:
  fixes f :: "'a \<Rightarrow> 'b::linorder"
  assumes "xs \<noteq> []"
  shows "last (sort_key f xs) = last (filter (\<lambda>t. f t = Max (f ` set xs)) xs)"
proof -
  let ?s = "sort_key f xs" and ?m = "Max (f ` set xs)"
  have ne: "?s \<noteq> []" using assms by (rule sort_key_ne)
  have srt: "sorted (map f ?s)" by simp
  have lin: "last ?s \<in> set xs" using ne by (metis last_in_set set_sort)
  have fin: "finite (f ` set xs)" "f ` set xs \<noteq> {}" using assms by auto
  have "?m \<in> f ` set xs" using fin by (rule Max_in)
  then obtain y where y: "y \<in> set xs" "f y = ?m" by auto
  have "?m \<le> f (last ?s)" using sorted_le_last[OF srt, of y] y by simp
  moreover have "f (last ?s) \<le> ?m" using fin(1) lin by (simp add: Max_ge)
  ultimately have m: "f (last ?s) = ?m" by simp
  have "last (filter (\<lambda>t. f t = ?m) ?s) = last ?s" using ne m by (rule last_filter_last)
  moreover have "filter (\<lambda>t. f t = ?m) ?s = filter (\<lambda>t. f t = ?m) xs"
    by (rule sort_key_stable)
  ultimately show ?thesis by simp
qed

lemma sort_key_perm_stable:
  assumes "mset xs' = mset xs"
    and "\<forall>k. filter (\<lambda>t. f t = k) xs' = filter (\<lambda>t. f t = k) xs"
  shows "sort_key f xs' = sort_key f xs"
proof (rule properties_for_sort_key)
  show "mset (sort_key f xs) = mset xs'" using assms(1) by simp
  show "sorted (map f (sort_key f xs))" by simp
  fix k assume "k \<in> set (sort_key f xs)"
  have "filter (\<lambda>x. f k = f x) (sort_key f xs) = filter (\<lambda>x. f x = f k) (sort_key f xs)"
    by (rule filter_cong) auto
  also have "\<dots> = filter (\<lambda>x. f x = f k) xs" by (rule sort_key_stable)
  also have "\<dots> = filter (\<lambda>x. f x = f k) xs'" using assms(2) by simp
  also have "\<dots> = filter (\<lambda>x. f k = f x) xs'" by (rule filter_cong) auto
  finally show "filter (\<lambda>x. f k = f x) (sort_key f xs) = filter (\<lambda>x. f k = f x) xs'" .
qed

lemma compute_ohlc_fields:
  assumes ne: "ticks \<noteq> []"
  shows "compute_ohlc ticks symb interval b =
     Some \<lparr>o_symbol = symb, o_interval = interval, o_timestamp = b,
            o_open = price (hd (filter (\<lambda>t. timestamp t = Min (timestamp ` set ticks)) ticks)),
            o_high = Max (price ` set ticks),
            o_low = Min (price ` set ticks),
            o_close = price (last (filter (\<lambda>t. timestamp t = Max (timestamp ` set ticks)) ticks)),
            o_volume = sum_list (map size' ticks),
            o_trade_count = length ticks\<rparr>"
proof -
  let ?s = "sort_key timestamp ticks"
  have sne: "map price ?s \<noteq> []" using ne by (simp add: sort_key_ne)
  have hi: "py_max (map price ?s) = Max (price ` set ticks)"
    using py_max_Max[OF sne] by simp
  have lo: "py_min (map price ?s) = Min (price ` set ticks)"
    using py_min_Min[OF sne] by simp
  have vol: "sum_list (map size' ?s) = sum_list (map size' ticks)"
  proof -
    have "mset (map size' ?s) = mset (map size' ticks)" by simp
    then show ?thesis by (metis sum_mset_sum_list)
  qed
  show ?thesis
    using ne hi lo vol hd_sort_key_first_of_least[OF ne, of timestamp]
      last_sort_key_last_of_greatest[OF ne, of timestamp]
    by (simp add: compute_ohlc_def Let_def)
qed

lemma first_of_least_unique:
  fixes f :: "'a \<Rightarrow> 'b::linorder"
  assumes "e \<in> set xs" "\<forall>t\<in>set xs. t \<noteq> e \<longrightarrow> f e < f t"
  shows "hd (filter (\<lambda>t. f t = Min (f ` set xs)) xs) = e"
proof -
  let ?m = "Min (f ` set xs)"
  have fin: "finite (f ` set xs)" "f ` set xs \<noteq> {}" using assms(1) by auto
  have "?m \<in> f ` set xs" using fin by (rule Min_in)
  then obtain y where y: "y \<in> set xs" "f y = ?m" by auto
  have "?m \<le> f e" using fin(1) assms(1) by (simp add: Min_le)
  then have ye: "y = e" using y assms(2) by force
  have ne: "filter (\<lambda>t. f t = ?m) xs \<noteq> []" using y by (auto simp: filter_empty_conv)
  then have "hd (filter (\<lambda>t. f t = ?m) xs) \<in> set (filter (\<lambda>t. f t = ?m) xs)"
    by (rule hd_in_set)
  then have h: "hd (filter (\<lambda>t. f t = ?m) xs) \<in> set xs"
    "f (hd (filter (\<lambda>t. f t = ?m) xs)) = ?m" by auto
  show ?thesis
  proof (rule ccontr)
    assume "hd (filter (\<lambda>t. f t = ?m) xs) \<noteq> e"
    with assms(2) h have "f e < ?m" by force
    with y ye show False by simp
  qed
qed

lemma last_of_greatest_unique:
  fixes f :: "'a \<Rightarrow> 'b::linorder"
  assumes "e \<in> set xs" "\<forall>t\<in>set xs. t \<noteq> e \<longrightarrow> f t < f e"
  shows "last (filter (\<lambda>t. f t = Max (f ` set xs)) xs) = e"
proof -
  let ?m = "Max (f ` set xs)"
  have fin: "finite (f ` set xs)" "f ` set xs \<noteq> {}" using assms(1) by auto
  have "?m \<in> f ` set xs" using fin by (rule Max_in)
  then obtain y where y: "y \<in> set xs" "f y = ?m" by auto
  have "f e \<le> ?m" using fin(1) assms(1) by (simp add: Max_ge)
  then have ye: "y = e" using y assms(2) by force
  have ne: "filter (\<lambda>t. f t = ?m) xs \<noteq> []" using y by (auto simp: filter_empty_conv)
  then have "last (filter (\<lambda>t. f t = ?m) xs) \<in> set (filter (\<lambda>t. f t = ?m) xs)"
    by (rule last_in_set)
  then have h: "last (filter (\<lambda>t. f t = ?m) xs) \<in> set xs"
    "f (last (filter (\<lambda>t. f t = ?m) xs)) = ?m" by auto
  show ?thesis
  proof (rule ccontr)
    assume "last (filter (\<lambda>t. f t = ?m) xs) \<noteq> e"
    with assms(2) h have "?m < f e" by force
    with y ye show False by simp
  qed
qed

text \<open>
  C1, as the code has it. For every non-empty list of trades of one bucket the bar has
  high = the maximum price, low = the minimum price, volume = the sum of the sizes and
  trade_count = the number of trades, and these four are the same for every arrival
  order. Open is the price of the chronologically earliest trade and close the price of
  the latest, where among trades that share the earliest timestamp the first arrived
  counts, and among trades that share the latest timestamp the last arrived. The whole
  bar is the same for every arrival order that keeps the arrival order of the trades with
  equal timestamps, hence for every arrival order when the timestamps are pairwise
  distinct.
\<close>

theorem compute_ohlc_bar_of_bucket:
  "ticks \<noteq> [] \<longrightarrow>
     (\<exists>bar. compute_ohlc ticks symb interval b = Some bar
        \<and> o_open bar
            = price (hd (filter (\<lambda>t. timestamp t = Min (timestamp ` set ticks)) ticks))
        \<and> o_close bar
            = price (last (filter (\<lambda>t. timestamp t = Max (timestamp ` set ticks)) ticks))
        \<and> (\<forall>e\<in>set ticks. (\<forall>t\<in>set ticks. t \<noteq> e \<longrightarrow> timestamp e < timestamp t)
              \<longrightarrow> o_open bar = price e)
        \<and> (\<forall>e\<in>set ticks. (\<forall>t\<in>set ticks. t \<noteq> e \<longrightarrow> timestamp t < timestamp e)
              \<longrightarrow> o_close bar = price e)
        \<and> o_high bar = Max (price ` set ticks)
        \<and> o_low bar = Min (price ` set ticks)
        \<and> o_volume bar = sum_list (map size' ticks)
        \<and> o_trade_count bar = length ticks
        \<and> (mset ticks' = mset ticks \<longrightarrow>
             (\<exists>bar'. compute_ohlc ticks' symb interval b = Some bar'
                \<and> o_high bar' = o_high bar \<and> o_low bar' = o_low bar
                \<and> o_volume bar' = o_volume bar \<and> o_trade_count bar' = o_trade_count bar)
             \<and> ((\<forall>k. filter (\<lambda>t. timestamp t = k) ticks' = filter (\<lambda>t. timestamp t = k) ticks)
                  \<longrightarrow> compute_ohlc ticks' symb interval b = compute_ohlc ticks symb interval b)
             \<and> (distinct (map timestamp ticks)
                  \<longrightarrow> compute_ohlc ticks' symb interval b = compute_ohlc ticks symb interval b)))"
proof
  assume ne: "ticks \<noteq> []"
  let ?bar = "\<lparr>o_symbol = symb, o_interval = interval, o_timestamp = b,
            o_open = price (hd (filter (\<lambda>t. timestamp t = Min (timestamp ` set ticks)) ticks)),
            o_high = Max (price ` set ticks),
            o_low = Min (price ` set ticks),
            o_close = price (last (filter (\<lambda>t. timestamp t = Max (timestamp ` set ticks)) ticks)),
            o_volume = sum_list (map size' ticks),
            o_trade_count = length ticks\<rparr>"
  have bar: "compute_ohlc ticks symb interval b = Some ?bar"
    using ne by (rule compute_ohlc_fields)
  have op: "\<forall>e\<in>set ticks. (\<forall>t\<in>set ticks. t \<noteq> e \<longrightarrow> timestamp e < timestamp t)
              \<longrightarrow> o_open ?bar = price e"
    using first_of_least_unique[of _ ticks timestamp] by simp
  have cl: "\<forall>e\<in>set ticks. (\<forall>t\<in>set ticks. t \<noteq> e \<longrightarrow> timestamp t < timestamp e)
              \<longrightarrow> o_close ?bar = price e"
    using last_of_greatest_unique[of _ ticks timestamp] by simp
  have perm: "\<exists>bar'. compute_ohlc ticks' symb interval b = Some bar'
                \<and> o_high bar' = o_high ?bar \<and> o_low bar' = o_low ?bar
                \<and> o_volume bar' = o_volume ?bar \<and> o_trade_count bar' = o_trade_count ?bar"
    if p: "mset ticks' = mset ticks"
  proof -
    have ne': "ticks' \<noteq> []" using ne p by auto
    have st: "set ticks' = set ticks" using p by (rule mset_eq_setD)
    have len: "length ticks' = length ticks" using p by (rule mset_eq_length)
    have "mset (map size' ticks') = mset (map size' ticks)" using p by simp
    then have vol: "sum_list (map size' ticks') = sum_list (map size' ticks)"
      by (metis sum_mset_sum_list)
    show ?thesis unfolding compute_ohlc_fields[OF ne'] using st len vol by simp
  qed
  have stable: "compute_ohlc ticks' symb interval b = compute_ohlc ticks symb interval b"
    if p: "mset ticks' = mset ticks"
      and k: "\<forall>k. filter (\<lambda>t. timestamp t = k) ticks' = filter (\<lambda>t. timestamp t = k) ticks"
  proof -
    have ne': "ticks' \<noteq> []" using ne p by auto
    have "sort_key timestamp ticks' = sort_key timestamp ticks"
      using p k by (rule sort_key_perm_stable)
    then show ?thesis using ne ne' by (simp add: compute_ohlc_def)
  qed
  have dist: "compute_ohlc ticks' symb interval b = compute_ohlc ticks symb interval b"
    if p: "mset ticks' = mset ticks" and d: "distinct (map timestamp ticks)"
  proof -
    have ne': "ticks' \<noteq> []" using ne p by auto
    have "sort_key timestamp ticks' = sort_key timestamp ticks"
      using p d by (rule sort_key_perm_distinct)
    then show ?thesis using ne ne' by (simp add: compute_ohlc_def)
  qed
  show "\<exists>bar. compute_ohlc ticks symb interval b = Some bar
        \<and> o_open bar
            = price (hd (filter (\<lambda>t. timestamp t = Min (timestamp ` set ticks)) ticks))
        \<and> o_close bar
            = price (last (filter (\<lambda>t. timestamp t = Max (timestamp ` set ticks)) ticks))
        \<and> (\<forall>e\<in>set ticks. (\<forall>t\<in>set ticks. t \<noteq> e \<longrightarrow> timestamp e < timestamp t)
              \<longrightarrow> o_open bar = price e)
        \<and> (\<forall>e\<in>set ticks. (\<forall>t\<in>set ticks. t \<noteq> e \<longrightarrow> timestamp t < timestamp e)
              \<longrightarrow> o_close bar = price e)
        \<and> o_high bar = Max (price ` set ticks)
        \<and> o_low bar = Min (price ` set ticks)
        \<and> o_volume bar = sum_list (map size' ticks)
        \<and> o_trade_count bar = length ticks
        \<and> (mset ticks' = mset ticks \<longrightarrow>
             (\<exists>bar'. compute_ohlc ticks' symb interval b = Some bar'
                \<and> o_high bar' = o_high bar \<and> o_low bar' = o_low bar
                \<and> o_volume bar' = o_volume bar \<and> o_trade_count bar' = o_trade_count bar)
             \<and> ((\<forall>k. filter (\<lambda>t. timestamp t = k) ticks' = filter (\<lambda>t. timestamp t = k) ticks)
                  \<longrightarrow> compute_ohlc ticks' symb interval b = compute_ohlc ticks symb interval b)
             \<and> (distinct (map timestamp ticks)
                  \<longrightarrow> compute_ohlc ticks' symb interval b = compute_ohlc ticks symb interval b))"
    apply (rule exI[of _ ?bar])
    apply (intro conjI)
    subgoal by (rule bar)
    subgoal by simp
    subgoal by simp
    subgoal using op by simp
    subgoal using cl by simp
    subgoal by simp
    subgoal by simp
    subgoal by simp
    subgoal by simp
    subgoal using perm stable dist by blast
    done
qed

text \<open>
  Two trades with the same timestamp and different prices: the sort is stable, so the one
  that arrived first is the open and the other the close, and the two arrival orders give
  different bars.
\<close>

theorem compute_ohlc_arrival_order_counterexample:
  "mset [\<lparr>symbol = ''BTCUSDT'', timestamp = 1000, price = 100, size' = 1\<rparr>,
         \<lparr>symbol = ''BTCUSDT'', timestamp = 1000, price = 101, size' = 2\<rparr>]
   = mset [\<lparr>symbol = ''BTCUSDT'', timestamp = 1000, price = 101, size' = 2\<rparr>,
           \<lparr>symbol = ''BTCUSDT'', timestamp = 1000, price = 100, size' = 1\<rparr>]
   \<and> compute_ohlc [\<lparr>symbol = ''BTCUSDT'', timestamp = 1000, price = 100, size' = 1\<rparr>,
         \<lparr>symbol = ''BTCUSDT'', timestamp = 1000, price = 101, size' = 2\<rparr>] ''BTCUSDT'' ''1s'' 0
     \<noteq> compute_ohlc [\<lparr>symbol = ''BTCUSDT'', timestamp = 1000, price = 101, size' = 2\<rparr>,
           \<lparr>symbol = ''BTCUSDT'', timestamp = 1000, price = 100, size' = 1\<rparr>] ''BTCUSDT'' ''1s'' 0"
  by (simp add: compute_ohlc_def Let_def)

text \<open>Three trades, the first two sharing a timestamp: an arrival order that keeps the
  tied trades in order gives the same bar; swapping the tied trades keeps high, low,
  volume and count, and changes the open.\<close>

theorem compute_ohlc_bar_of_bucket_witness:
  "[\<lparr>symbol = ''BTCUSDT'', timestamp = 1000, price = 100, size' = 1\<rparr>,
      \<lparr>symbol = ''BTCUSDT'', timestamp = 1000, price = 101, size' = 2\<rparr>,
      \<lparr>symbol = ''BTCUSDT'', timestamp = 2000, price = 99, size' = 4\<rparr>] \<noteq> []
   \<and> mset [\<lparr>symbol = ''BTCUSDT'', timestamp = 2000, price = 99, size' = 4\<rparr>,
      \<lparr>symbol = ''BTCUSDT'', timestamp = 1000, price = 100, size' = 1\<rparr>,
      \<lparr>symbol = ''BTCUSDT'', timestamp = 1000, price = 101, size' = 2\<rparr>]
       = mset [\<lparr>symbol = ''BTCUSDT'', timestamp = 1000, price = 100, size' = 1\<rparr>,
      \<lparr>symbol = ''BTCUSDT'', timestamp = 1000, price = 101, size' = 2\<rparr>,
      \<lparr>symbol = ''BTCUSDT'', timestamp = 2000, price = 99, size' = 4\<rparr>]
   \<and> (\<forall>k. filter (\<lambda>t. timestamp t = k)
             [\<lparr>symbol = ''BTCUSDT'', timestamp = 2000, price = 99, size' = 4\<rparr>,
      \<lparr>symbol = ''BTCUSDT'', timestamp = 1000, price = 100, size' = 1\<rparr>,
      \<lparr>symbol = ''BTCUSDT'', timestamp = 1000, price = 101, size' = 2\<rparr>]
           = filter (\<lambda>t. timestamp t = k)
             [\<lparr>symbol = ''BTCUSDT'', timestamp = 1000, price = 100, size' = 1\<rparr>,
      \<lparr>symbol = ''BTCUSDT'', timestamp = 1000, price = 101, size' = 2\<rparr>,
      \<lparr>symbol = ''BTCUSDT'', timestamp = 2000, price = 99, size' = 4\<rparr>])
   \<and> compute_ohlc
     [\<lparr>symbol = ''BTCUSDT'', timestamp = 1000, price = 100, size' = 1\<rparr>,
      \<lparr>symbol = ''BTCUSDT'', timestamp = 1000, price = 101, size' = 2\<rparr>,
      \<lparr>symbol = ''BTCUSDT'', timestamp = 2000, price = 99, size' = 4\<rparr>] ''BTCUSDT'' ''1s'' 0
     = Some \<lparr>o_symbol = ''BTCUSDT'', o_interval = ''1s'', o_timestamp = 0, o_open = 100,
             o_high = 101, o_low = 99, o_close = 99, o_volume = 7, o_trade_count = 3\<rparr>
   \<and> compute_ohlc
     [\<lparr>symbol = ''BTCUSDT'', timestamp = 2000, price = 99, size' = 4\<rparr>,
      \<lparr>symbol = ''BTCUSDT'', timestamp = 1000, price = 100, size' = 1\<rparr>,
      \<lparr>symbol = ''BTCUSDT'', timestamp = 1000, price = 101, size' = 2\<rparr>] ''BTCUSDT'' ''1s'' 0
     = Some \<lparr>o_symbol = ''BTCUSDT'', o_interval = ''1s'', o_timestamp = 0, o_open = 100,
             o_high = 101, o_low = 99, o_close = 99, o_volume = 7, o_trade_count = 3\<rparr>
   \<and> mset [\<lparr>symbol = ''BTCUSDT'', timestamp = 1000, price = 101, size' = 2\<rparr>,
      \<lparr>symbol = ''BTCUSDT'', timestamp = 1000, price = 100, size' = 1\<rparr>,
      \<lparr>symbol = ''BTCUSDT'', timestamp = 2000, price = 99, size' = 4\<rparr>]
       = mset [\<lparr>symbol = ''BTCUSDT'', timestamp = 1000, price = 100, size' = 1\<rparr>,
      \<lparr>symbol = ''BTCUSDT'', timestamp = 1000, price = 101, size' = 2\<rparr>,
      \<lparr>symbol = ''BTCUSDT'', timestamp = 2000, price = 99, size' = 4\<rparr>]
   \<and> compute_ohlc
     [\<lparr>symbol = ''BTCUSDT'', timestamp = 1000, price = 101, size' = 2\<rparr>,
      \<lparr>symbol = ''BTCUSDT'', timestamp = 1000, price = 100, size' = 1\<rparr>,
      \<lparr>symbol = ''BTCUSDT'', timestamp = 2000, price = 99, size' = 4\<rparr>] ''BTCUSDT'' ''1s'' 0
     = Some \<lparr>o_symbol = ''BTCUSDT'', o_interval = ''1s'', o_timestamp = 0, o_open = 101,
             o_high = 101, o_low = 99, o_close = 99, o_volume = 7, o_trade_count = 3\<rparr>"
  using compute_ohlc_bar_of_bucket
    [of "[\<lparr>symbol = ''BTCUSDT'', timestamp = 1000, price = 100, size' = 1\<rparr>,
      \<lparr>symbol = ''BTCUSDT'', timestamp = 1000, price = 101, size' = 2\<rparr>,
      \<lparr>symbol = ''BTCUSDT'', timestamp = 2000, price = 99, size' = 4\<rparr>]" "''BTCUSDT''" "''1s''" 0
        "[\<lparr>symbol = ''BTCUSDT'', timestamp = 2000, price = 99, size' = 4\<rparr>,
      \<lparr>symbol = ''BTCUSDT'', timestamp = 1000, price = 100, size' = 1\<rparr>,
      \<lparr>symbol = ''BTCUSDT'', timestamp = 1000, price = 101, size' = 2\<rparr>]"]
    compute_ohlc_bar_of_bucket
    [of "[\<lparr>symbol = ''BTCUSDT'', timestamp = 1000, price = 100, size' = 1\<rparr>,
      \<lparr>symbol = ''BTCUSDT'', timestamp = 1000, price = 101, size' = 2\<rparr>,
      \<lparr>symbol = ''BTCUSDT'', timestamp = 2000, price = 99, size' = 4\<rparr>]" "''BTCUSDT''" "''1s''" 0
        "[\<lparr>symbol = ''BTCUSDT'', timestamp = 1000, price = 101, size' = 2\<rparr>,
      \<lparr>symbol = ''BTCUSDT'', timestamp = 1000, price = 100, size' = 1\<rparr>,
      \<lparr>symbol = ''BTCUSDT'', timestamp = 2000, price = 99, size' = 4\<rparr>]"]
  by (simp add: compute_ohlc_def Let_def)

section \<open>Bucket completion: results\<close>

lemma dd_get_update: "dd_get (AList.update k v al) k' = (if k' = k then v else dd_get al k')"
  by (simp add: dd_get_def update_conv')

lemma dd_get_delete: "dd_get (AList.delete k al) k' = (if k' = k then [] else dd_get al k')"
  by (simp add: dd_get_def delete_conv')

lemma dd_get_notin: "k \<notin> fst ` set al \<Longrightarrow> dd_get al k = []"
proof -
  assume "k \<notin> fst ` set al"
  then have "map_of al k = None" by (simp add: map_of_eq_None_iff)
  then show ?thesis by (simp add: dd_get_def)
qed

lemma keys_delete: "fst ` set (AList.delete k al) = fst ` set al - {k}"
proof -
  have "set (map fst (AList.delete k al)) = set (map fst al) - {k}"
    by (simp only: delete_keys set_removeAll)
  then show ?thesis by simp
qed

lemma compute_ohlc_Some:
  "compute_ohlc ticks symb interval b = Some bar \<Longrightarrow>
     o_timestamp bar = b \<and> o_symbol bar = symb \<and> o_interval bar = interval \<and> ticks \<noteq> []"
  by (auto simp: compute_ohlc_def Let_def split: if_splits)

lemma compute_ohlc_None: "compute_ohlc ticks symb interval b = None \<longleftrightarrow> ticks = []"
  by (simp add: compute_ohlc_def Let_def)

lemma apply_ohlc_append: "apply_ohlc (xs @ ys) t = apply_ohlc ys (apply_ohlc xs t)"
proof (induction xs arbitrary: t)
  case Nil
  then show ?case by simp
next
  case (Cons a xs)
  show ?case
  proof (cases a)
    case (InsertTick row)
    then show ?thesis using Cons.IH[of t] by simp
  next
    case (UpsertOhlc k v)
    then show ?thesis using Cons.IH[of "t(k \<mapsto> v)"] by (simp del: fun_upd_apply)
  qed
qed

lemma tick_rows_append: "tick_rows (xs @ ys) = tick_rows xs @ tick_rows ys"
  by (induction xs rule: tick_rows.induct) simp_all

lemma conn_ok_execute_and_commit: "conn_ok (execute_and_commit d sts) = conn_ok d"
  by (simp add: execute_and_commit_def commit_def)

lemma conn_ok_insert_ohlc: "conn_ok (insert_ohlc d symb interval ohlc) = conn_ok d"
  by (simp add: insert_ohlc_def Let_def conn_ok_execute_and_commit)

lemma eff_no_pending: "pending d = [] \<Longrightarrow> eff_ohlc d = ohlc_table d"
  by (simp add: eff_ohlc_def)

lemma eff_insert_ohlc_ok:
  "conn_ok d \<Longrightarrow>
   eff_ohlc (insert_ohlc d symb interval ohlc)
     = (eff_ohlc d)((symb, interval, o_timestamp ohlc) \<mapsto>
          ohlc\<lparr>o_symbol := symb, o_interval := interval\<rparr>)"
  by (simp add: insert_ohlc_def Let_def execute_and_commit_def commit_def eff_ohlc_def
      apply_ohlc_append)

lemma pending_insert_ohlc_ok: "conn_ok d \<Longrightarrow> pending (insert_ohlc d symb interval ohlc) = []"
  by (simp add: insert_ohlc_def Let_def execute_and_commit_def commit_def)

lemma eff_insert_ohlc_other:
  assumes "k \<noteq> (symb, interval, o_timestamp ohlc)"
  shows "eff_ohlc (insert_ohlc d symb interval ohlc) k = eff_ohlc d k"
proof (cases "conn_ok d")
  case True
  then show ?thesis using assms by (simp add: eff_insert_ohlc_ok)
next
  case False
  then show ?thesis using assms
    by (cases "fail_executed d")
       (simp_all add: insert_ohlc_def Let_def execute_and_commit_def eff_ohlc_def
          apply_ohlc_append)
qed

lemma finalize_loop_keys:
  "fst ` set (snd (finalize_loop d bm symb interval bs)) = fst ` set bm - set bs"
  by (induction bs arbitrary: d bm) (auto simp: Let_def keys_delete)

lemma finalize_loop_values:
  "b \<notin> set bs \<Longrightarrow> dd_get (snd (finalize_loop d bm symb interval bs)) b = dd_get bm b"
  by (induction bs arbitrary: d bm) (auto simp: Let_def dd_get_delete)

lemma finalize_loop_conn_ok:
  "conn_ok (fst (finalize_loop d bm symb interval bs)) = conn_ok d"
  by (induction bs arbitrary: d bm) (auto simp: Let_def conn_ok_insert_ohlc split: option.splits)

lemma finalize_loop_other_table:
  "(s', i') \<noteq> (symb, interval) \<Longrightarrow>
   eff_ohlc (fst (finalize_loop d bm symb interval bs)) (s', i', b) = eff_ohlc d (s', i', b)"
  by (induction bs arbitrary: d bm)
     (auto simp: Let_def eff_insert_ohlc_other split: option.splits)

lemma finalize_loop_absent_table:
  "b \<notin> fst ` set bm \<Longrightarrow>
   eff_ohlc (fst (finalize_loop d bm symb interval bs)) (symb, interval, b)
     = eff_ohlc d (symb, interval, b)"
proof (induction bs arbitrary: d bm)
  case Nil
  then show ?case by simp
next
  case (Cons b' bs)
  let ?d' = "case compute_ohlc (dd_get bm b') symb interval b' of
               None \<Rightarrow> d | Some ohlc \<Rightarrow> insert_ohlc d symb interval ohlc"
  have absent: "b \<notin> fst ` set (AList.delete b' bm)" using Cons.prems by (simp add: keys_delete)
  have same: "eff_ohlc ?d' (symb, interval, b) = eff_ohlc d (symb, interval, b)"
  proof (cases "b' = b")
    case True
    with Cons.prems have "dd_get bm b' = []" by (simp add: dd_get_notin)
    then show ?thesis by (simp add: compute_ohlc_def)
  next
    case False
    then show ?thesis
      by (auto simp: eff_insert_ohlc_other split: option.splits dest: compute_ohlc_Some)
  qed
  show ?case using Cons.IH[OF absent, of ?d'] same by (simp add: Let_def)
qed

lemma finalize_loop_table:
  assumes "conn_ok d" "b \<in> set bs" "compute_ohlc (dd_get bm b) symb interval b = Some bar"
  shows "eff_ohlc (fst (finalize_loop d bm symb interval bs)) (symb, interval, b) = Some bar"
  using assms
proof (induction bs arbitrary: d bm)
  case Nil
  then show ?case by simp
next
  case (Cons b' bs)
  let ?d' = "case compute_ohlc (dd_get bm b') symb interval b' of
               None \<Rightarrow> d | Some ohlc \<Rightarrow> insert_ohlc d symb interval ohlc"
  have ok: "conn_ok ?d'" using Cons.prems(1) by (simp add: conn_ok_insert_ohlc split: option.splits)
  show ?case
  proof (cases "b' = b")
    case True
    have bar: "o_timestamp bar = b" "o_symbol bar = symb" "o_interval bar = interval"
      using compute_ohlc_Some[OF Cons.prems(3)] by auto
    then have "bar\<lparr>o_symbol := symb, o_interval := interval\<rparr> = bar" by simp
    then have "eff_ohlc ?d' (symb, interval, b) = Some bar"
      using True Cons.prems(1,3) bar by (simp add: eff_insert_ohlc_ok)
    moreover have "b \<notin> fst ` set (AList.delete b' bm)" using True by (simp add: keys_delete)
    ultimately show ?thesis
      using finalize_loop_absent_table[of b "AList.delete b' bm" ?d' symb interval bs]
      by (simp add: Let_def)
  next
    case False
    then have "b \<in> set bs" using Cons.prems(2) by simp
    moreover have "compute_ohlc (dd_get (AList.delete b' bm) b) symb interval b = Some bar"
      using False Cons.prems(3) by (simp add: dd_get_delete)
    ultimately show ?thesis using Cons.IH[OF ok] by (simp add: Let_def)
  qed
qed

lemma finalize_loop_pending:
  "conn_ok d \<Longrightarrow> pending d = [] \<Longrightarrow>
   pending (fst (finalize_loop d bm symb interval bs)) = []"
  by (induction bs arbitrary: d bm)
     (auto simp: Let_def pending_insert_ohlc_ok conn_ok_insert_ohlc split: option.splits)

lemma finalize_loop_table_pending:
  assumes "conn_ok d" "b \<in> set bs" "compute_ohlc (dd_get bm b) symb interval b = Some bar"
  shows "pending (fst (finalize_loop d bm symb interval bs)) = []"
  using assms
proof (induction bs arbitrary: d bm)
  case Nil
  then show ?case by simp
next
  case (Cons b' bs)
  let ?d' = "case compute_ohlc (dd_get bm b') symb interval b' of
               None \<Rightarrow> d | Some ohlc \<Rightarrow> insert_ohlc d symb interval ohlc"
  have ok: "conn_ok ?d'" using Cons.prems(1) by (simp add: conn_ok_insert_ohlc split: option.splits)
  show ?case
  proof (cases "b' = b")
    case True
    then have "pending ?d' = []"
      using Cons.prems(1,3) by (simp add: pending_insert_ohlc_ok)
    from finalize_loop_pending[OF ok this] show ?thesis by (simp add: Let_def)
  next
    case False
    then have "b \<in> set bs" using Cons.prems(2) by simp
    moreover have "compute_ohlc (dd_get (AList.delete b' bm) b) symb interval b = Some bar"
      using False Cons.prems(3) by (simp add: dd_get_delete)
    ultimately show ?thesis using Cons.IH[OF ok] by (simp add: Let_def)
  qed
qed

lemma get_interval_bucket_unsupported:
  "interval \<notin> set supported_intervals \<Longrightarrow>
   get_interval_bucket ts interval = Inl (ValueError (''Unsupported interval: '' @ interval))"
  by (simp add: get_interval_bucket_def supported_intervals_def)

lemma get_interval_bucket_supported:
  "interval \<in> set supported_intervals \<Longrightarrow> \<exists>k. get_interval_bucket ts interval = Inr k"
  by (auto simp: get_interval_bucket_def supported_intervals_def)

lemma get_interval_bucket_Inr:
  "get_interval_bucket ts interval = Inr k \<Longrightarrow> interval \<in> set supported_intervals"
  by (auto simp: get_interval_bucket_def supported_intervals_def split: if_splits)

lemma get_interval_bucket_Inl:
  "get_interval_bucket ts interval = Inl e \<Longrightarrow>
   interval \<notin> set supported_intervals \<and> e = ValueError (''Unsupported interval: '' @ interval)"
  by (auto simp: get_interval_bucket_def supported_intervals_def split: if_splits)

lemma process_tick_for_interval_Inr:
  assumes k: "get_interval_bucket (timestamp tick) interval = Inr k"
  shows "process_tick_for_interval r tick interval =
     Inr (r\<lparr>db := fst (finalize_loop (db r) (appended r tick interval k) (symbol tick) interval
                       (completed (appended r tick interval k) k)),
            buffers := AList.update (symbol tick)
               (AList.update interval
                  (snd (finalize_loop (db r) (appended r tick interval k) (symbol tick) interval
                       (completed (appended r tick interval k) k)))
                  (dd_get (buffers r) (symbol tick)))
               (buffers r)\<rparr>)"
  using k
  by (simp add: process_tick_for_interval_def finalize_completed_buckets_def Let_def
      dd_get_update appended_def completed_def split_beta)

lemma process_tick_for_interval_Inl:
  "process_tick_for_interval r tick interval = Inl (e, r') \<Longrightarrow>
   r' = r \<and> interval \<notin> set supported_intervals
   \<and> e = ValueError (''Unsupported interval: '' @ interval)"
  by (auto simp: process_tick_for_interval_def finalize_completed_buckets_def Let_def split_beta
      split: sum.splits dest: get_interval_bucket_Inl)

lemma step_fields:
  assumes "process_tick_for_interval r tick interval = Inr r'"
  shows "rs_log r' = rs_log r" "intervals r' = intervals r" "conn_ok (db r') = conn_ok (db r)"
proof -
  obtain k where k: "get_interval_bucket (timestamp tick) interval = Inr k"
    using assms by (auto simp: process_tick_for_interval_def split: sum.splits)
  show "rs_log r' = rs_log r" "intervals r' = intervals r" "conn_ok (db r') = conn_ok (db r)"
    using assms unfolding process_tick_for_interval_Inr[OF k]
    by (auto simp: finalize_loop_conn_ok)
qed

lemma step_bucket_map:
  assumes "process_tick_for_interval r tick interval = Inr r'"
    and k: "get_interval_bucket (timestamp tick) interval = Inr k"
  shows "dd_get (dd_get (buffers r') s) i =
     (if s = symbol tick \<and> i = interval
      then snd (finalize_loop (db r) (appended r tick interval k) (symbol tick) interval
                  (completed (appended r tick interval k) k))
      else dd_get (dd_get (buffers r) s) i)"
  using assms(1) unfolding process_tick_for_interval_Inr[OF k]
  by (auto simp: dd_get_update)

lemma keys_appended:
  "fst ` set (appended r tick interval k) = insert k (bucket_keys r (symbol tick) interval)"
  by (simp add: appended_def Let_def dom_update bucket_keys_def)

lemma step_bucket_keys:
  assumes "process_tick_for_interval r tick interval = Inr r'"
    and k: "get_interval_bucket (timestamp tick) interval = Inr k"
  shows "bucket_keys r' s i =
     (if s = symbol tick \<and> i = interval
      then {b \<in> insert k (bucket_keys r s i). \<not> b < k}
      else bucket_keys r s i)"
proof -
  have "fst ` set (snd (finalize_loop (db r) (appended r tick interval k) (symbol tick) interval
                  (completed (appended r tick interval k) k)))
        = {b \<in> insert k (bucket_keys r (symbol tick) interval). \<not> b < k}"
    unfolding finalize_loop_keys keys_appended[symmetric] completed_def by auto
  then show ?thesis
    unfolding bucket_keys_def[of r'] step_bucket_map[OF assms]
    by (auto simp: bucket_keys_def)
qed

lemma finalize_loop_notin_table:
  "b \<notin> set bs \<Longrightarrow>
   eff_ohlc (fst (finalize_loop d bm symb interval bs)) (symb, interval, b)
     = eff_ohlc d (symb, interval, b)"
  by (induction bs arbitrary: d bm)
     (auto simp: Let_def eff_insert_ohlc_other split: option.splits dest: compute_ohlc_Some)

lemma dd_get_appended:
  "b \<noteq> k \<Longrightarrow> dd_get (appended r tick interval k) b
     = dd_get (dd_get (dd_get (buffers r) (symbol tick)) interval) b"
  by (simp add: appended_def Let_def dd_get_update)

lemma step_table_unchanged:
  assumes step: "process_tick_for_interval r tick j = Inr r1"
    and k: "get_interval_bucket (timestamp tick) j = Inr k"
    and nd: "\<not> (s = symbol tick \<and> i = j \<and> b \<in> bucket_keys r s i \<and> b < k)"
  shows "eff_ohlc (db r1) (s, i, b) = eff_ohlc (db r) (s, i, b)"
proof -
  let ?bm = "appended r tick j k"
  have d: "db r1 = fst (finalize_loop (db r) ?bm (symbol tick) j (completed ?bm k))"
    using step unfolding process_tick_for_interval_Inr[OF k] by auto
  show ?thesis
  proof (cases "(s, i) = (symbol tick, j)")
    case False
    then show ?thesis unfolding d by (rule finalize_loop_other_table)
  next
    case True
    have "b \<notin> set (completed ?bm k)"
      using nd True keys_appended[of r tick j k] by (auto simp: completed_def)
    then show ?thesis using True unfolding d by (simp add: finalize_loop_notin_table)
  qed
qed

lemma step_table_final:
  assumes step: "process_tick_for_interval r tick j = Inr r1"
    and k: "get_interval_bucket (timestamp tick) j = Inr k"
    and ok: "conn_ok (db r)"
    and b: "b \<in> bucket_keys r (symbol tick) j" "b < k"
    and bar: "compute_ohlc (dd_get (dd_get (dd_get (buffers r) (symbol tick)) j) b)
                (symbol tick) j b = Some bar"
  shows "eff_ohlc (db r1) (symbol tick, j, b) = Some bar"
proof -
  let ?bm = "appended r tick j k"
  have d: "db r1 = fst (finalize_loop (db r) ?bm (symbol tick) j (completed ?bm k))"
    using step unfolding process_tick_for_interval_Inr[OF k] by auto
  have "b \<in> set (completed ?bm k)"
    using b keys_appended[of r tick j k] by (auto simp: completed_def)
  moreover have "compute_ohlc (dd_get ?bm b) (symbol tick) j b = Some bar"
    using bar b(2) by (simp add: dd_get_appended)
  ultimately show ?thesis unfolding d using ok by (simp add: finalize_loop_table)
qed

lemma step_pending:
  assumes step: "process_tick_for_interval r tick j = Inr r1"
    and ok: "conn_ok (db r)" "pending (db r) = []"
  shows "pending (db r1) = []"
proof -
  obtain k where k: "get_interval_bucket (timestamp tick) j = Inr k"
    using step by (auto simp: process_tick_for_interval_def split: sum.splits)
  let ?bm = "appended r tick j k"
  have d: "db r1 = fst (finalize_loop (db r) ?bm (symbol tick) j (completed ?bm k))"
    using step unfolding process_tick_for_interval_Inr[OF k] by auto
  show ?thesis unfolding d using ok by (rule finalize_loop_pending)
qed

lemma step_pending_final:
  assumes step: "process_tick_for_interval r tick j = Inr r1"
    and k: "get_interval_bucket (timestamp tick) j = Inr k"
    and ok: "conn_ok (db r)"
    and b: "b \<in> bucket_keys r (symbol tick) j" "b < k"
    and bar: "compute_ohlc (dd_get (dd_get (dd_get (buffers r) (symbol tick)) j) b)
                (symbol tick) j b = Some bar"
  shows "pending (db r1) = []"
proof -
  let ?bm = "appended r tick j k"
  have d: "db r1 = fst (finalize_loop (db r) ?bm (symbol tick) j (completed ?bm k))"
    using step unfolding process_tick_for_interval_Inr[OF k] by auto
  have "b \<in> set (completed ?bm k)"
    using b keys_appended[of r tick j k] by (auto simp: completed_def)
  moreover have "compute_ohlc (dd_get ?bm b) (symbol tick) j b = Some bar"
    using bar b(2) by (simp add: dd_get_appended)
  ultimately show ?thesis unfolding d using ok by (simp add: finalize_loop_table_pending)
qed

text \<open>One turn of the loop over the intervals: it ends at an unsupported interval with
  the state unchanged, or it goes on from the state the interval leaves.\<close>

lemma process_intervals_Cons_cases:
  obtains (stop) "j \<notin> set supported_intervals"
      "process_intervals r tick (j # ivs)
         = Inl (ValueError (''Unsupported interval: '' @ j), r)"
      "reached (j # ivs) = []"
  | (go) r1 kj where "j \<in> set supported_intervals"
      "process_tick_for_interval r tick j = Inr r1"
      "get_interval_bucket (timestamp tick) j = Inr kj"
      "process_intervals r tick (j # ivs) = process_intervals r1 tick ivs"
      "reached (j # ivs) = j # reached ivs"
proof (cases "process_tick_for_interval r tick j")
  case (Inl er)
  obtain e r1 where er: "er = (e, r1)" by (cases er)
  from process_tick_for_interval_Inl[of r tick j e r1] Inl er
  have "j \<notin> set supported_intervals"
    "process_intervals r tick (j # ivs) = Inl (ValueError (''Unsupported interval: '' @ j), r)"
    by auto
  moreover from this have "reached (j # ivs) = []" by (simp add: reached_def)
  ultimately show ?thesis by (rule stop)
next
  case (Inr r1)
  then obtain k where k: "get_interval_bucket (timestamp tick) j = Inr k"
    by (auto simp: process_tick_for_interval_def split: sum.splits)
  then have j: "j \<in> set supported_intervals" by (rule get_interval_bucket_Inr)
  show ?thesis
    using j Inr k by (rule go) (simp_all add: Inr reached_def j)
qed

lemma process_intervals_removed:
  assumes "b \<in> bucket_keys r s i"
    and "b \<notin> bucket_keys (final_state (process_intervals r tick ivs)) s i"
  shows "s = symbol tick \<and> i \<in> set ivs
     \<and> (\<exists>k. get_interval_bucket (timestamp tick) i = Inr k \<and> b < k)"
  using assms
proof (induction ivs arbitrary: r)
  case Nil
  then show ?case by (simp add: final_state_def)
next
  case (Cons j ivs)
  show ?case
  proof (cases rule: process_intervals_Cons_cases[of j r tick ivs])
    case stop
    then show ?thesis using Cons.prems by (simp add: final_state_def)
  next
    case (go r1 kj)
    have fin: "b \<notin> bucket_keys (final_state (process_intervals r1 tick ivs)) s i"
      using Cons.prems(2) go(4) by simp
    show ?thesis
    proof (cases "b \<in> bucket_keys r1 s i")
      case True
      from Cons.IH[OF True fin] show ?thesis by auto
    next
      case False
      then show ?thesis
        using Cons.prems(1) go(3) unfolding step_bucket_keys[OF go(2,3)]
        by (auto split: if_splits)
    qed
  qed
qed

lemma process_intervals_keys:
  assumes k: "get_interval_bucket (timestamp tick) i = Inr k"
  shows "bucket_keys (final_state (process_intervals r tick ivs)) s i =
     (if s = symbol tick \<and> i \<in> set (reached ivs)
      then {b \<in> insert k (bucket_keys r s i). \<not> b < k}
      else bucket_keys r s i)"
proof (induction ivs arbitrary: r)
  case Nil
  then show ?case by (simp add: final_state_def reached_def)
next
  case (Cons j ivs)
  show ?case
  proof (cases rule: process_intervals_Cons_cases[of j r tick ivs])
    case stop
    then show ?thesis by (simp add: final_state_def)
  next
    case (go r1 kj)
    have same: "i = j \<Longrightarrow> kj = k" using k go(3) by simp
    show ?thesis
      unfolding go(4,5) Cons.IH[of r1] step_bucket_keys[OF go(2,3), of s i]
      using same by auto
  qed
qed

lemma process_intervals_table_unchanged:
  assumes "\<not> (s = symbol tick \<and> b \<in> bucket_keys r s i
           \<and> (\<exists>k. get_interval_bucket (timestamp tick) i = Inr k \<and> b < k))"
  shows "eff_ohlc (db (final_state (process_intervals r tick ivs))) (s, i, b)
     = eff_ohlc (db r) (s, i, b)"
  using assms
proof (induction ivs arbitrary: r)
  case Nil
  then show ?case by (simp add: final_state_def)
next
  case (Cons j ivs)
  show ?case
  proof (cases rule: process_intervals_Cons_cases[of j r tick ivs])
    case stop
    then show ?thesis by (simp add: final_state_def)
  next
    case (go r1 kj)
    have t1: "eff_ohlc (db r1) (s, i, b) = eff_ohlc (db r) (s, i, b)"
      using Cons.prems go(3) by (intro step_table_unchanged[OF go(2,3)]) auto
    have "\<not> (s = symbol tick \<and> b \<in> bucket_keys r1 s i
           \<and> (\<exists>k. get_interval_bucket (timestamp tick) i = Inr k \<and> b < k))"
      using Cons.prems go(3) unfolding step_bucket_keys[OF go(2,3), of s i] by auto
    from Cons.IH[OF this] t1 show ?thesis unfolding go(4) by simp
  qed
qed

lemma process_intervals_table_final:
  assumes "conn_ok (db r)" "i \<in> set (reached ivs)"
    and "b \<in> bucket_keys r (symbol tick) i"
    and k: "get_interval_bucket (timestamp tick) i = Inr k" "b < k"
    and "compute_ohlc (dd_get (dd_get (dd_get (buffers r) (symbol tick)) i) b)
           (symbol tick) i b = Some bar"
  shows "eff_ohlc (db (final_state (process_intervals r tick ivs))) (symbol tick, i, b)
     = Some bar"
  using assms(1,2,3,6)
proof (induction ivs arbitrary: r)
  case Nil
  then show ?case by (simp add: reached_def)
next
  case (Cons j ivs)
  show ?case
  proof (cases rule: process_intervals_Cons_cases[of j r tick ivs])
    case stop
    then show ?thesis using Cons.prems(2) by simp
  next
    case (go r1 kj)
    have ok1: "conn_ok (db r1)" using step_fields(3)[OF go(2)] Cons.prems(1) by simp
    show ?thesis
    proof (cases "j = i")
      case True
      then have kk: "kj = k" using go(3) k(1) by simp
      have t1: "eff_ohlc (db r1) (symbol tick, i, b) = Some bar"
        using step_table_final[OF go(2,3) Cons.prems(1)] Cons.prems(3,4) k(2) True kk by simp
      have "b \<notin> bucket_keys r1 (symbol tick) i"
        using k(2) True kk unfolding step_bucket_keys[OF go(2,3), of "symbol tick" i] by auto
      then have "eff_ohlc (db (final_state (process_intervals r1 tick ivs))) (symbol tick, i, b)
          = eff_ohlc (db r1) (symbol tick, i, b)"
        by (intro process_intervals_table_unchanged) simp
      with t1 show ?thesis unfolding go(4) by simp
    next
      case False
      then have i: "i \<in> set (reached ivs)" using Cons.prems(2) go(5) by simp
      have keys: "b \<in> bucket_keys r1 (symbol tick) i"
        using Cons.prems(3) False unfolding step_bucket_keys[OF go(2,3), of "symbol tick" i]
        by simp
      have "dd_get (dd_get (buffers r1) (symbol tick)) i
          = dd_get (dd_get (buffers r) (symbol tick)) i"
        using False unfolding step_bucket_map[OF go(2,3), of "symbol tick" i] by simp
      then have bar: "compute_ohlc (dd_get (dd_get (dd_get (buffers r1) (symbol tick)) i) b)
           (symbol tick) i b = Some bar"
        using Cons.prems(4) by simp
      from Cons.IH[OF ok1 i keys bar] show ?thesis unfolding go(4) .
    qed
  qed
qed

lemma process_intervals_pending:
  assumes "conn_ok (db r)" "pending (db r) = []"
  shows "pending (db (final_state (process_intervals r tick ivs))) = []"
  using assms
proof (induction ivs arbitrary: r)
  case Nil
  then show ?case by (simp add: final_state_def)
next
  case (Cons j ivs)
  show ?case
  proof (cases rule: process_intervals_Cons_cases[of j r tick ivs])
    case stop
    then show ?thesis using Cons.prems by (simp add: final_state_def)
  next
    case (go r1 kj)
    have ok1: "conn_ok (db r1)" using step_fields(3)[OF go(2)] Cons.prems(1) by simp
    have "pending (db r1) = []" using go(2) Cons.prems by (rule step_pending)
    from Cons.IH[OF ok1 this] show ?thesis unfolding go(4) .
  qed
qed

lemma process_intervals_pending_final:
  assumes "conn_ok (db r)" "i \<in> set (reached ivs)"
    and "b \<in> bucket_keys r (symbol tick) i"
    and k: "get_interval_bucket (timestamp tick) i = Inr k" "b < k"
    and "compute_ohlc (dd_get (dd_get (dd_get (buffers r) (symbol tick)) i) b)
           (symbol tick) i b = Some bar"
  shows "pending (db (final_state (process_intervals r tick ivs))) = []"
  using assms(1,2,3,6)
proof (induction ivs arbitrary: r)
  case Nil
  then show ?case by (simp add: reached_def)
next
  case (Cons j ivs)
  show ?case
  proof (cases rule: process_intervals_Cons_cases[of j r tick ivs])
    case stop
    then show ?thesis using Cons.prems(2) by simp
  next
    case (go r1 kj)
    have ok1: "conn_ok (db r1)" using step_fields(3)[OF go(2)] Cons.prems(1) by simp
    show ?thesis
    proof (cases "j = i")
      case True
      then have kk: "kj = k" using go(3) k(1) by simp
      have "pending (db r1) = []"
        using step_pending_final[OF go(2,3) Cons.prems(1)] Cons.prems(3,4) k(2) True kk by simp
      from process_intervals_pending[OF ok1 this] show ?thesis unfolding go(4) .
    next
      case False
      then have i: "i \<in> set (reached ivs)" using Cons.prems(2) go(5) by simp
      have keys: "b \<in> bucket_keys r1 (symbol tick) i"
        using Cons.prems(3) False unfolding step_bucket_keys[OF go(2,3), of "symbol tick" i]
        by simp
      have "dd_get (dd_get (buffers r1) (symbol tick)) i
          = dd_get (dd_get (buffers r) (symbol tick)) i"
        using False unfolding step_bucket_map[OF go(2,3), of "symbol tick" i] by simp
      then have bar: "compute_ohlc (dd_get (dd_get (dd_get (buffers r1) (symbol tick)) i) b)
           (symbol tick) i b = Some bar"
        using Cons.prems(4) by simp
      from Cons.IH[OF ok1 i keys bar] show ?thesis unfolding go(4) .
    qed
  qed
qed

lemma process_intervals_fields:
  "intervals (final_state (process_intervals r tick ivs)) = intervals r"
  "rs_log (final_state (process_intervals r tick ivs)) = rs_log r"
proof (induction ivs arbitrary: r)
  case Nil
  {
    case 1 show ?case by (simp add: final_state_def)
  next
    case 2 show ?case by (simp add: final_state_def)
  }
next
  case (Cons j ivs)
  {
    case 1
    show ?case
    proof (cases rule: process_intervals_Cons_cases[of j r tick ivs])
      case stop then show ?thesis by (simp add: final_state_def)
    next
      case (go r1 kj)
      then show ?thesis using Cons.IH(1)[of r1] step_fields(2)[OF go(2)] by simp
    qed
  next
    case 2
    show ?case
    proof (cases rule: process_intervals_Cons_cases[of j r tick ivs])
      case stop then show ?thesis by (simp add: final_state_def)
    next
      case (go r1 kj)
      then show ?thesis using Cons.IH(2)[of r1] step_fields(1)[OF go(2)] by simp
    qed
  }
qed

lemma process_intervals_unsupported_map:
  assumes "i \<notin> set supported_intervals"
  shows "dd_get (dd_get (buffers (final_state (process_intervals r tick ivs))) s) i
     = dd_get (dd_get (buffers r) s) i"
proof (induction ivs arbitrary: r)
  case Nil
  then show ?case by (simp add: final_state_def)
next
  case (Cons j ivs)
  show ?case
  proof (cases rule: process_intervals_Cons_cases[of j r tick ivs])
    case stop
    then show ?thesis by (simp add: final_state_def)
  next
    case (go r1 kj)
    then have "i \<noteq> j" using assms by auto
    then have "dd_get (dd_get (buffers r1) s) i = dd_get (dd_get (buffers r) s) i"
      unfolding step_bucket_map[OF go(2,3), of s i] by simp
    with Cons.IH[of r1] go(4) show ?thesis by simp
  qed
qed

lemma process_intervals_unsupported:
  assumes "\<exists>i\<in>set ivs. i \<notin> set supported_intervals"
  shows "\<exists>j r'. process_intervals r tick ivs = Inl (ValueError (''Unsupported interval: '' @ j), r')
     \<and> j \<in> set ivs \<and> j \<notin> set supported_intervals \<and> rs_log r' = rs_log r"
  using assms
proof (induction ivs arbitrary: r)
  case Nil
  then show ?case by simp
next
  case (Cons j ivs)
  show ?case
  proof (cases rule: process_intervals_Cons_cases[of j r tick ivs])
    case stop
    then show ?thesis by auto
  next
    case (go r1 kj)
    with Cons.prems have "\<exists>i\<in>set ivs. i \<notin> set supported_intervals" by auto
    from Cons.IH[OF this, of r1] step_fields(1)[OF go(2)] go(4) show ?thesis by auto
  qed
qed

lemma conn_ok_insert_tick: "conn_ok (insert_tick now d tick) = conn_ok d"
  by (simp add: insert_tick_def flush_ticks_def Let_def conn_ok_execute_and_commit)

lemma process_tick_buffers:
  "buffers (process_tick now r tick)
     = buffers (final_state (process_intervals (r\<lparr>db := insert_tick now (db r) tick\<rparr>) tick
                  (intervals r)))"
  by (simp add: process_tick_def Let_def final_state_def split: sum.splits prod.splits error.splits)

lemma process_tick_db:
  "db (process_tick now r tick)
     = db (final_state (process_intervals (r\<lparr>db := insert_tick now (db r) tick\<rparr>) tick
                  (intervals r)))"
  by (simp add: process_tick_def Let_def final_state_def split: sum.splits prod.splits error.splits)

lemma process_tick_intervals: "intervals (process_tick now r tick) = intervals r"
proof -
  have "intervals (process_tick now r tick)
     = intervals (final_state (process_intervals (r\<lparr>db := insert_tick now (db r) tick\<rparr>) tick
                  (intervals r)))"
    by (simp add: process_tick_def Let_def final_state_def split: sum.splits prod.splits error.splits)
  then show ?thesis by (simp add: process_intervals_fields)
qed

lemma bucket_keys_buffers: "buffers r = buffers r' \<Longrightarrow> bucket_keys r s i = bucket_keys r' s i"
  by (simp add: bucket_keys_def)

lemma process_tick_keys:
  "bucket_keys (process_tick now r tick) s i
     = bucket_keys (final_state (process_intervals (r\<lparr>db := insert_tick now (db r) tick\<rparr>)
                      tick (intervals r))) s i"
  by (rule bucket_keys_buffers) (rule process_tick_buffers)

lemma process_tick_removed:
  assumes "b \<in> bucket_keys r s i" "b \<notin> bucket_keys (process_tick now r tick) s i"
  shows "s = symbol tick \<and> i \<in> set (intervals r)
     \<and> (\<exists>k. get_interval_bucket (timestamp tick) i = Inr k \<and> b < k)"
proof -
  let ?r1 = "r\<lparr>db := insert_tick now (db r) tick\<rparr>"
  have 1: "b \<in> bucket_keys ?r1 s i" using assms(1) by (simp add: bucket_keys_def)
  have 2: "b \<notin> bucket_keys (final_state (process_intervals ?r1 tick (intervals r))) s i"
    using assms(2) by (simp add: process_tick_keys)
  from process_intervals_removed[OF 1 2] show ?thesis .
qed

lemma process_tick_finalized:
  assumes i: "i \<in> set (reached (intervals r))"
    and k: "get_interval_bucket (timestamp tick) i = Inr k" "b < k"
  shows "b \<notin> bucket_keys (process_tick now r tick) (symbol tick) i"
    and "conn_ok (db r) \<Longrightarrow> b \<in> bucket_keys r (symbol tick) i \<Longrightarrow>
         compute_ohlc (dd_get (dd_get (dd_get (buffers r) (symbol tick)) i) b)
           (symbol tick) i b = Some bar \<Longrightarrow>
         ohlc_table (db (process_tick now r tick)) (symbol tick, i, b) = Some bar"
proof -
  let ?r1 = "r\<lparr>db := insert_tick now (db r) tick\<rparr>"
  show "b \<notin> bucket_keys (process_tick now r tick) (symbol tick) i"
    unfolding process_tick_keys process_intervals_keys[OF k(1)] using i k(2) by simp
  assume ok: "conn_ok (db r)" and b: "b \<in> bucket_keys r (symbol tick) i"
    and bar: "compute_ohlc (dd_get (dd_get (dd_get (buffers r) (symbol tick)) i) b)
           (symbol tick) i b = Some bar"
  have ok1: "conn_ok (db ?r1)" using ok by (simp add: conn_ok_insert_tick)
  have b1: "b \<in> bucket_keys ?r1 (symbol tick) i" using b by (simp add: bucket_keys_def)
  have bar1: "compute_ohlc (dd_get (dd_get (dd_get (buffers ?r1) (symbol tick)) i) b)
           (symbol tick) i b = Some bar" using bar by simp
  have "eff_ohlc (db (final_state (process_intervals ?r1 tick (intervals r)))) (symbol tick, i, b)
      = Some bar"
    using process_intervals_table_final[OF ok1 _ b1 k bar1, of "intervals r"] i by simp
  moreover have "pending (db (final_state (process_intervals ?r1 tick (intervals r)))) = []"
    using process_intervals_pending_final[OF ok1 _ b1 k bar1, of "intervals r"] i by simp
  ultimately show "ohlc_table (db (process_tick now r tick)) (symbol tick, i, b) = Some bar"
    unfolding process_tick_db by (simp add: eff_no_pending)
qed

lemma process_ticks_removed:
  assumes "b \<in> bucket_keys r s i" "b \<notin> bucket_keys (process_ticks r calls) s i"
  shows "\<exists>call\<in>set calls. symbol (snd call) = s
     \<and> (\<exists>k. get_interval_bucket (timestamp (snd call)) i = Inr k \<and> b < k)"
  using assms
proof (induction calls arbitrary: r)
  case Nil
  then show ?case by simp
next
  case (Cons c calls)
  obtain now tick where c: "c = (now, tick)" by (cases c)
  show ?case
  proof (cases "b \<in> bucket_keys (process_tick now r tick) s i")
    case True
    from Cons.IH[OF True] Cons.prems(2) c show ?thesis by auto
  next
    case False
    from process_tick_removed[OF Cons.prems(1) False] c show ?thesis by auto
  qed
qed

text \<open>In a state the resampler can be in, every buffered bucket belongs to an interval
  the loop gets to.\<close>

lemma process_tick_buckets_reached:
  assumes inv: "\<And>s i. bucket_keys r s i \<noteq> {} \<Longrightarrow> i \<in> set (reached (intervals r))"
    and ne: "bucket_keys (process_tick now r tick) s i \<noteq> {}"
  shows "i \<in> set (reached (intervals r))"
proof (cases "get_interval_bucket (timestamp tick) i")
  case (Inl e)
  then have "i \<notin> set supported_intervals" by (auto dest: get_interval_bucket_Inl)
  then have "bucket_keys (process_tick now r tick) s i = bucket_keys r s i"
    unfolding process_tick_keys
    using process_intervals_unsupported_map[of i "r\<lparr>db := insert_tick now (db r) tick\<rparr>" tick
        "intervals r" s]
    by (simp add: bucket_keys_def)
  with ne inv show ?thesis by simp
next
  case (Inr k)
  show ?thesis
  proof (rule ccontr)
    assume n: "i \<notin> set (reached (intervals r))"
    then have "bucket_keys (process_tick now r tick) s i = bucket_keys r s i"
      unfolding process_tick_keys process_intervals_keys[OF Inr] by (simp add: bucket_keys_def)
    with ne inv n show False by simp
  qed
qed

lemma process_ticks_buckets_reached:
  assumes "\<forall>s' i'. bucket_keys r s' i' \<noteq> {} \<longrightarrow> i' \<in> set (reached (intervals r))"
    and "bucket_keys (process_ticks r calls) s i \<noteq> {}"
  shows "i \<in> set (reached (intervals r))"
  using assms
proof (induction calls arbitrary: r)
  case Nil
  then show ?case by simp
next
  case (Cons c calls)
  obtain now tick where c: "c = (now, tick)" by (cases c)
  have inv': "\<forall>s' i'. bucket_keys (process_tick now r tick) s' i' \<noteq> {}
      \<longrightarrow> i' \<in> set (reached (intervals (process_tick now r tick)))"
    unfolding process_tick_intervals
    using process_tick_buckets_reached[of r now tick] Cons.prems(1) by blast
  from Cons.IH[OF inv'] Cons.prems(2) c
  show ?case by (simp add: process_tick_intervals)
qed

lemma new_resampler_buckets_reached:
  assumes "b \<in> bucket_keys (process_ticks (new_resampler d ivs) calls) s i"
  shows "i \<in> set (reached ivs)"
proof -
  have "\<forall>s' i'. bucket_keys (new_resampler d ivs) s' i' \<noteq> {}
      \<longrightarrow> i' \<in> set (reached (intervals (new_resampler d ivs)))"
    by (simp add: new_resampler_def bucket_keys_def dd_get_def)
  from process_ticks_buckets_reached[OF this, of calls s i] assms
  show ?thesis by (auto simp: new_resampler_def)
qed

lemma process_ticks_intervals: "intervals (process_ticks r calls) = intervals r"
  by (induction r calls rule: process_ticks.induct) (simp_all add: process_tick_intervals)

text \<open>
  C2. Along \<^verbatim>\<open>process_tick\<close> calls a buffered bucket of (symbol, interval) is finalized
  exactly when a trade of that symbol arrives whose bucket key for the interval is
  strictly greater than the bucket's own key:
  \<^item> a bucket that a call removes was removed by a trade of its symbol with a strictly
    later key for its interval;
  \<^item> such a trade removes the bucket, for every interval the loop gets to, and (the
    database accepting writes) the bucket's bar is then in the OHLC table;
  \<^item> in every state reached from a new resampler, whatever the configured intervals, a
    buffered bucket belongs to an interval the loop gets to;
  \<^item> over a sequence of calls, a bucket that has gone was preceded by such a trade.
\<close>

theorem bucket_finalized_exactly_on_later_key:
  "(b \<in> bucket_keys r s i \<and> b \<notin> bucket_keys (process_tick now r tick) s i \<longrightarrow>
      s = symbol tick \<and> i \<in> set (intervals r)
      \<and> (\<exists>k'. get_interval_bucket (timestamp tick) i = Inr k' \<and> b < k'))
   \<and> (i \<in> set (reached (intervals r))
        \<and> get_interval_bucket (timestamp tick) i = Inr k \<and> b < k \<longrightarrow>
      b \<notin> bucket_keys (process_tick now r tick) (symbol tick) i
      \<and> (conn_ok (db r) \<and> b \<in> bucket_keys r (symbol tick) i
          \<and> compute_ohlc (dd_get (dd_get (dd_get (buffers r) (symbol tick)) i) b)
                (symbol tick) i b = Some bar \<longrightarrow>
          ohlc_table (db (process_tick now r tick)) (symbol tick, i, b) = Some bar))
   \<and> (b \<in> bucket_keys (process_ticks (new_resampler d ivs) calls) s i \<longrightarrow>
      i \<in> set (reached (intervals (process_ticks (new_resampler d ivs) calls))))
   \<and> (b \<in> bucket_keys r s i \<and> b \<notin> bucket_keys (process_ticks r calls) s i \<longrightarrow>
      (\<exists>call\<in>set calls. symbol (snd call) = s
         \<and> (\<exists>k'. get_interval_bucket (timestamp (snd call)) i = Inr k' \<and> b < k')))"
proof (intro conjI impI)
  assume "b \<in> bucket_keys r s i \<and> b \<notin> bucket_keys (process_tick now r tick) s i"
  then have *: "s = symbol tick \<and> i \<in> set (intervals r)
     \<and> (\<exists>k. get_interval_bucket (timestamp tick) i = Inr k \<and> b < k)"
    using process_tick_removed by blast
  from * show "s = symbol tick" by simp
  from * show "i \<in> set (intervals r)" by simp
  from * show "\<exists>k'. get_interval_bucket (timestamp tick) i = Inr k' \<and> b < k'" by simp
next
  assume a: "i \<in> set (reached (intervals r))
        \<and> get_interval_bucket (timestamp tick) i = Inr k \<and> b < k"
  then show "b \<notin> bucket_keys (process_tick now r tick) (symbol tick) i"
    using process_tick_finalized(1)[of i r tick k b now] by blast
  assume "conn_ok (db r) \<and> b \<in> bucket_keys r (symbol tick) i
          \<and> compute_ohlc (dd_get (dd_get (dd_get (buffers r) (symbol tick)) i) b)
                (symbol tick) i b = Some bar"
  with a show "ohlc_table (db (process_tick now r tick)) (symbol tick, i, b) = Some bar"
    using process_tick_finalized(2)[of i r tick k b bar now] by blast
next
  assume "b \<in> bucket_keys (process_ticks (new_resampler d ivs) calls) s i"
  then have "i \<in> set (reached ivs)" by (rule new_resampler_buckets_reached)
  then show "i \<in> set (reached (intervals (process_ticks (new_resampler d ivs) calls)))"
    by (simp add: process_ticks_intervals new_resampler_def)
next
  assume "b \<in> bucket_keys r s i \<and> b \<notin> bucket_keys (process_ticks r calls) s i"
  then show "\<exists>call\<in>set calls. symbol (snd call) = s
         \<and> (\<exists>k'. get_interval_bucket (timestamp (snd call)) i = Inr k' \<and> b < k')"
    using process_ticks_removed by blast
qed

text \<open>The scenario of two trades in the second 0, with an unsupported interval configured
  after \<open>1s\<close>; the third trade at 1.2 s finalizes the bucket.\<close>

lemma example_run:
  "process_ticks (new_resampler (new_database 0) [''1s'', ''2m''])
     [(150000, \<lparr>symbol = ''BTCUSDT'', timestamp = 100000, price = 100, size' = 2\<rparr>),
      (950000, \<lparr>symbol = ''BTCUSDT'', timestamp = 900000, price = 101, size' = 3\<rparr>)]
   = \<lparr>db = \<lparr>conn_ok = True, fail_executed = 0, pending = [],
             tick_buffer = [\<lparr>symbol = ''BTCUSDT'', timestamp = 100000, price = 100, size' = 2\<rparr>,
                            \<lparr>symbol = ''BTCUSDT'', timestamp = 900000, price = 101, size' = 3\<rparr>],
             last_flush = 0, ticks_table = [], ohlc_table = Map.empty, db_log = []\<rparr>,
      intervals = [''1s'', ''2m''],
      buffers = [(''BTCUSDT'', [(''1s'', [(0,
           [\<lparr>symbol = ''BTCUSDT'', timestamp = 100000, price = 100, size' = 2\<rparr>,
            \<lparr>symbol = ''BTCUSDT'', timestamp = 900000, price = 101, size' = 3\<rparr>])])])],
      rs_log = [LogError ''Error processing tick: Unsupported interval: 2m'',
                LogError ''Error processing tick: Unsupported interval: 2m'']\<rparr>"
  by (simp add: process_tick_def new_resampler_def new_database_def
      insert_tick_def flush_ticks_def TICK_BATCH_SIZE_def TICK_BATCH_TIMEOUT_def Let_def
      process_tick_for_interval_def finalize_completed_buckets_def get_interval_bucket_def
      replace_microsecond_def dd_get_def compute_ohlc_def insert_ohlc_def)

theorem bucket_finalized_exactly_on_later_key_witness:
  "(0::int) \<in> bucket_keys
     (process_ticks (new_resampler (new_database 0) [''1s'', ''2m''])
       [(150000, \<lparr>symbol = ''BTCUSDT'', timestamp = 100000, price = 100, size' = 2\<rparr>),
        (950000, \<lparr>symbol = ''BTCUSDT'', timestamp = 900000, price = 101, size' = 3\<rparr>)]) ''BTCUSDT'' ''1s''
   \<and> ''1s'' \<in> set (reached (intervals
     (process_ticks (new_resampler (new_database 0) [''1s'', ''2m''])
       [(150000, \<lparr>symbol = ''BTCUSDT'', timestamp = 100000, price = 100, size' = 2\<rparr>),
        (950000, \<lparr>symbol = ''BTCUSDT'', timestamp = 900000, price = 101, size' = 3\<rparr>)])))
   \<and> get_interval_bucket 1200000 ''1s'' = Inr 1000000
   \<and> 0 \<notin> bucket_keys (process_tick 1300000
     (process_ticks (new_resampler (new_database 0) [''1s'', ''2m''])
       [(150000, \<lparr>symbol = ''BTCUSDT'', timestamp = 100000, price = 100, size' = 2\<rparr>),
        (950000, \<lparr>symbol = ''BTCUSDT'', timestamp = 900000, price = 101, size' = 3\<rparr>)])
       \<lparr>symbol = ''BTCUSDT'', timestamp = 1200000, price = 102, size' = 1\<rparr>) ''BTCUSDT'' ''1s''
   \<and> ohlc_table (db (process_tick 1300000
     (process_ticks (new_resampler (new_database 0) [''1s'', ''2m''])
       [(150000, \<lparr>symbol = ''BTCUSDT'', timestamp = 100000, price = 100, size' = 2\<rparr>),
        (950000, \<lparr>symbol = ''BTCUSDT'', timestamp = 900000, price = 101, size' = 3\<rparr>)])
       \<lparr>symbol = ''BTCUSDT'', timestamp = 1200000, price = 102, size' = 1\<rparr>))
       (''BTCUSDT'', ''1s'', 0)
     = Some \<lparr>o_symbol = ''BTCUSDT'', o_interval = ''1s'', o_timestamp = 0, o_open = 100,
             o_high = 101, o_low = 100, o_close = 101, o_volume = 5, o_trade_count = 2\<rparr>"
  unfolding example_run
  using bucket_finalized_exactly_on_later_key
    [of 0 "\<lparr>db = \<lparr>conn_ok = True, fail_executed = 0, pending = [],
             tick_buffer = [\<lparr>symbol = ''BTCUSDT'', timestamp = 100000, price = 100, size' = 2\<rparr>,
                            \<lparr>symbol = ''BTCUSDT'', timestamp = 900000, price = 101, size' = 3\<rparr>],
             last_flush = 0, ticks_table = [], ohlc_table = Map.empty, db_log = []\<rparr>,
      intervals = [''1s'', ''2m''],
      buffers = [(''BTCUSDT'', [(''1s'', [(0,
           [\<lparr>symbol = ''BTCUSDT'', timestamp = 100000, price = 100, size' = 2\<rparr>,
            \<lparr>symbol = ''BTCUSDT'', timestamp = 900000, price = 101, size' = 3\<rparr>])])])],
      rs_log = [LogError ''Error processing tick: Unsupported interval: 2m'',
                LogError ''Error processing tick: Unsupported interval: 2m'']\<rparr>" "''BTCUSDT''" "''1s''" 1300000
       "\<lparr>symbol = ''BTCUSDT'', timestamp = 1200000, price = 102, size' = 1\<rparr>" 1000000
       "\<lparr>o_symbol = ''BTCUSDT'', o_interval = ''1s'', o_timestamp = 0, o_open = 100,
             o_high = 101, o_low = 100, o_close = 101, o_volume = 5, o_trade_count = 2\<rparr>" undefined "[]" "[]"]
  by (simp add: bucket_keys_def dd_get_def get_interval_bucket_def replace_microsecond_def
        supported_intervals_def reached_def compute_ohlc_def Let_def)

section \<open>Unsupported intervals: results\<close>

lemma process_tick_log_unsupported:
  assumes "\<exists>i\<in>set (intervals r). i \<notin> set supported_intervals"
  shows "\<exists>j. j \<in> set (intervals r) \<and> j \<notin> set supported_intervals
     \<and> rs_log (process_tick now r tick)
         = rs_log r @ [LogError (''Error processing tick: Unsupported interval: '' @ j)]"
proof -
  let ?r1 = "r\<lparr>db := insert_tick now (db r) tick\<rparr>"
  from process_intervals_unsupported[OF assms, of ?r1 tick]
  obtain j r' where j: "process_intervals ?r1 tick (intervals r)
        = Inl (ValueError (''Unsupported interval: '' @ j), r')"
    "j \<in> set (intervals r)" "j \<notin> set supported_intervals" "rs_log r' = rs_log r"
    by auto
  then have "rs_log (process_tick now r tick)
         = rs_log r @ [LogError (''Error processing tick: Unsupported interval: '' @ j)]"
    by (simp add: process_tick_def Let_def)
  with j show ?thesis by blast
qed

text \<open>
  C5. For every timestamp and every interval tag outside the supported set,
  \<^verbatim>\<open>get_interval_bucket\<close> raises \<^verbatim>\<open>ValueError\<close> and returns no bucket, processing a
  trade for that interval raises with the state unchanged, and \<^verbatim>\<open>process_tick\<close> on a
  configuration holding the tag logs the error and creates no bucket for it.
\<close>

theorem unsupported_interval_fails_fast:
  "interval \<notin> set supported_intervals \<longrightarrow>
     get_interval_bucket ts interval = Inl (ValueError (''Unsupported interval: '' @ interval))
     \<and> process_tick_for_interval r tick interval
         = Inl (ValueError (''Unsupported interval: '' @ interval), r)
     \<and> (interval \<in> set (intervals r) \<longrightarrow>
          (\<exists>j. j \<in> set (intervals r) \<and> j \<notin> set supported_intervals
             \<and> rs_log (process_tick now r tick)
                 = rs_log r @ [LogError (''Error processing tick: Unsupported interval: '' @ j)])
          \<and> (\<forall>s. dd_get (dd_get (buffers (process_tick now r tick)) s) interval
                    = dd_get (dd_get (buffers r) s) interval))"
proof (intro impI conjI allI)
  assume u: "interval \<notin> set supported_intervals"
  then show g: "get_interval_bucket ts interval = Inl (ValueError (''Unsupported interval: '' @ interval))"
    by (rule get_interval_bucket_unsupported)
  show "process_tick_for_interval r tick interval
         = Inl (ValueError (''Unsupported interval: '' @ interval), r)"
    using get_interval_bucket_unsupported[OF u, of "timestamp tick"]
    by (simp add: process_tick_for_interval_def)
  show "dd_get (dd_get (buffers (process_tick now r tick)) s) interval
                    = dd_get (dd_get (buffers r) s) interval" for s
    unfolding process_tick_buffers
    using process_intervals_unsupported_map[OF u, of "r\<lparr>db := insert_tick now (db r) tick\<rparr>"]
    by simp
  assume "interval \<in> set (intervals r)"
  with u have "\<exists>i\<in>set (intervals r). i \<notin> set supported_intervals" by blast
  then show "\<exists>j. j \<in> set (intervals r) \<and> j \<notin> set supported_intervals
             \<and> rs_log (process_tick now r tick)
                 = rs_log r @ [LogError (''Error processing tick: Unsupported interval: '' @ j)]"
    by (rule process_tick_log_unsupported)
qed

theorem unsupported_interval_fails_fast_witness:
  "''2m'' \<notin> set supported_intervals
   \<and> get_interval_bucket 1200000 ''2m'' = Inl (ValueError ''Unsupported interval: 2m'')
   \<and> rs_log (process_tick 1300000
       \<lparr>db = \<lparr>conn_ok = True, fail_executed = 0, pending = [], tick_buffer = [], last_flush = 0, ticks_table = [],
               ohlc_table = Map.empty, db_log = []\<rparr>,
        intervals = [''2m''], buffers = [], rs_log = []\<rparr>
       \<lparr>symbol = ''BTCUSDT'', timestamp = 1200000, price = 102, size' = 1\<rparr>)
     = [LogError ''Error processing tick: Unsupported interval: 2m'']
   \<and> dd_get (dd_get (buffers (process_tick 1300000
       \<lparr>db = \<lparr>conn_ok = True, fail_executed = 0, pending = [], tick_buffer = [], last_flush = 0, ticks_table = [],
               ohlc_table = Map.empty, db_log = []\<rparr>,
        intervals = [''2m''], buffers = [], rs_log = []\<rparr>
       \<lparr>symbol = ''BTCUSDT'', timestamp = 1200000, price = 102, size' = 1\<rparr>)) ''BTCUSDT'') ''2m''
     = []"
  using unsupported_interval_fails_fast
    [of "''2m''" 1200000
       "\<lparr>db = \<lparr>conn_ok = True, fail_executed = 0, pending = [], tick_buffer = [], last_flush = 0, ticks_table = [],
               ohlc_table = Map.empty, db_log = []\<rparr>,
        intervals = [''2m''], buffers = [], rs_log = []\<rparr>"
       "\<lparr>symbol = ''BTCUSDT'', timestamp = 1200000, price = 102, size' = 1\<rparr>" 1300000]
  by (simp add: supported_intervals_def dd_get_def)

section \<open>Storage and flush: results\<close>

lemma tick_rows_batch:
  "tick_rows (map (\<lambda>tick. InsertTick (tick_row_of tick)) ts) = map tick_row_of ts"
  by (induction ts) simp_all

lemma tick_buffer_execute_and_commit:
  "tick_buffer (execute_and_commit d sts) = tick_buffer d"
  by (simp add: execute_and_commit_def commit_def)

lemma ticks_table_execute_and_commit:
  "ticks_table (execute_and_commit d sts)
     = (if conn_ok d then ticks_table d @ tick_rows (pending d) @ tick_rows sts
        else ticks_table d)"
  by (simp add: execute_and_commit_def commit_def tick_rows_append)

lemma flush_ticks_buffer:
  "tick_buffer (flush_ticks now d) = (if conn_ok d then [] else tick_buffer d)"
  by (simp add: flush_ticks_def Let_def tick_buffer_execute_and_commit)

lemma flush_ticks_table:
  "ticks_table (flush_ticks now d)
     = (if conn_ok d \<and> tick_buffer d \<noteq> []
        then ticks_table d @ tick_rows (pending d) @ map tick_row_of (tick_buffer d)
        else ticks_table d)"
  by (simp add: flush_ticks_def Let_def ticks_table_execute_and_commit tick_rows_batch)

lemma flush_ticks_keeps_rows:
  "mset (ticks_table d) + mset (map tick_row_of (tick_buffer d))
     \<subseteq># mset (ticks_table (flush_ticks now d))
         + mset (map tick_row_of (tick_buffer (flush_ticks now d)))"
  by (simp add: flush_ticks_buffer flush_ticks_table)

lemma insert_tick_keeps_rows:
  "mset (ticks_table d) + mset (map tick_row_of (tick_buffer d)) + {#tick_row_of tick#}
     \<subseteq># mset (ticks_table (insert_tick now d tick))
         + mset (map tick_row_of (tick_buffer (insert_tick now d tick)))"
proof -
  let ?d1 = "d\<lparr>tick_buffer := tick_buffer d @ [tick]\<rparr>"
  have "mset (ticks_table ?d1) + mset (map tick_row_of (tick_buffer ?d1))
     \<subseteq># mset (ticks_table (flush_ticks now ?d1))
         + mset (map tick_row_of (tick_buffer (flush_ticks now ?d1)))"
    by (rule flush_ticks_keeps_rows)
  then show ?thesis by (simp add: insert_tick_def Let_def)
qed

lemma insert_ohlc_keeps_rows:
  "tick_buffer (insert_ohlc d symb interval ohlc) = tick_buffer d"
  "mset (ticks_table d) \<subseteq># mset (ticks_table (insert_ohlc d symb interval ohlc))"
  by (simp_all add: insert_ohlc_def Let_def tick_buffer_execute_and_commit
      ticks_table_execute_and_commit)

text \<open>
  C3. A flush that fails leaves the tick buffer unchanged, whatever part of the batch was
  executed before the exception, and the next successful flush writes every row buffered
  before (at least once) and empties the buffer; a flush that succeeds empties the
  buffer, with every buffered row in the table. No write drops a row: after
  \<^verbatim>\<open>insert_tick\<close>, and after an \<^verbatim>\<open>insert_ohlc\<close> committing on the same connection,
  every row that was in the table or in the buffer is still in one of them, and so is the
  new trade.
\<close>

theorem flush_failure_keeps_buffer:
  "(\<not> conn_ok d \<longrightarrow>
      tick_buffer (flush_ticks now d) = tick_buffer d
      \<and> mset (ticks_table d) + mset (map tick_row_of (tick_buffer d))
          \<subseteq># mset (ticks_table (flush_ticks now' ((flush_ticks now d)\<lparr>conn_ok := True\<rparr>)))
      \<and> tick_buffer (flush_ticks now' ((flush_ticks now d)\<lparr>conn_ok := True\<rparr>)) = [])
   \<and> (conn_ok d \<longrightarrow>
      tick_buffer (flush_ticks now d) = []
      \<and> mset (ticks_table d) + mset (map tick_row_of (tick_buffer d))
          \<subseteq># mset (ticks_table (flush_ticks now d)))
   \<and> mset (ticks_table d) + mset (map tick_row_of (tick_buffer d)) + {#tick_row_of tick#}
       \<subseteq># mset (ticks_table (insert_tick now d tick))
           + mset (map tick_row_of (tick_buffer (insert_tick now d tick)))
   \<and> tick_buffer (insert_ohlc d symb interval ohlc) = tick_buffer d
   \<and> mset (ticks_table d) \<subseteq># mset (ticks_table (insert_ohlc d symb interval ohlc))"
proof (intro conjI impI)
  assume f: "\<not> conn_ok d"
  let ?d2 = "(flush_ticks now d)\<lparr>conn_ok := True\<rparr>"
  show b: "tick_buffer (flush_ticks now d) = tick_buffer d"
    using f by (simp add: flush_ticks_buffer)
  have t: "ticks_table (flush_ticks now d) = ticks_table d"
    using f by (simp add: flush_ticks_table)
  show "tick_buffer (flush_ticks now' ?d2) = []"
    by (simp add: flush_ticks_buffer)
  have "mset (ticks_table ?d2) + mset (map tick_row_of (tick_buffer ?d2))
     \<subseteq># mset (ticks_table (flush_ticks now' ?d2))
         + mset (map tick_row_of (tick_buffer (flush_ticks now' ?d2)))"
    by (rule flush_ticks_keeps_rows)
  then show "mset (ticks_table d) + mset (map tick_row_of (tick_buffer d))
          \<subseteq># mset (ticks_table (flush_ticks now' ?d2))"
    using b t by (simp add: flush_ticks_buffer)
next
  assume ok: "conn_ok d"
  show e: "tick_buffer (flush_ticks now d) = []"
    using ok by (simp add: flush_ticks_buffer)
  show "mset (ticks_table d) + mset (map tick_row_of (tick_buffer d))
          \<subseteq># mset (ticks_table (flush_ticks now d))"
    using flush_ticks_keeps_rows[of d now] e by simp
next
  show "mset (ticks_table d) + mset (map tick_row_of (tick_buffer d)) + {#tick_row_of tick#}
       \<subseteq># mset (ticks_table (insert_tick now d tick))
           + mset (map tick_row_of (tick_buffer (insert_tick now d tick)))"
    by (rule insert_tick_keeps_rows)
next
  show "tick_buffer (insert_ohlc d symb interval ohlc) = tick_buffer d"
    by (rule insert_ohlc_keeps_rows)
next
  show "mset (ticks_table d) \<subseteq># mset (ticks_table (insert_ohlc d symb interval ohlc))"
    by (rule insert_ohlc_keeps_rows)
qed

text \<open>A buffer of two trades. The first flush fails after the first row was executed:
  the buffer is kept; the retry succeeds and the table holds the first row twice and the
  second once. The same buffer flushed with a working connection is emptied.\<close>

theorem flush_failure_keeps_buffer_witness:
  "\<not> conn_ok \<lparr>conn_ok = False, fail_executed = 1, pending = [],
        tick_buffer = [\<lparr>symbol = ''BTCUSDT'', timestamp = 100000, price = 100, size' = 2\<rparr>,
                       \<lparr>symbol = ''BTCUSDT'', timestamp = 900000, price = 101, size' = 3\<rparr>],
        last_flush = 0, ticks_table = [], ohlc_table = Map.empty, db_log = []\<rparr>
   \<and> tick_buffer (flush_ticks 2000000 \<lparr>conn_ok = False, fail_executed = 1, pending = [],
        tick_buffer = [\<lparr>symbol = ''BTCUSDT'', timestamp = 100000, price = 100, size' = 2\<rparr>,
                       \<lparr>symbol = ''BTCUSDT'', timestamp = 900000, price = 101, size' = 3\<rparr>],
        last_flush = 0, ticks_table = [], ohlc_table = Map.empty, db_log = []\<rparr>)
       = [\<lparr>symbol = ''BTCUSDT'', timestamp = 100000, price = 100, size' = 2\<rparr>,
          \<lparr>symbol = ''BTCUSDT'', timestamp = 900000, price = 101, size' = 3\<rparr>]
   \<and> ticks_table (flush_ticks 3000000 ((flush_ticks 2000000 \<lparr>conn_ok = False, fail_executed = 1, pending = [],
        tick_buffer = [\<lparr>symbol = ''BTCUSDT'', timestamp = 100000, price = 100, size' = 2\<rparr>,
                       \<lparr>symbol = ''BTCUSDT'', timestamp = 900000, price = 101, size' = 3\<rparr>],
        last_flush = 0, ticks_table = [], ohlc_table = Map.empty, db_log = []\<rparr>)\<lparr>conn_ok := True\<rparr>))
       = [(''BTCUSDT'', 100000, 100, 2), (''BTCUSDT'', 100000, 100, 2),
          (''BTCUSDT'', 900000, 101, 3)]
   \<and> tick_buffer (flush_ticks 3000000 ((flush_ticks 2000000 \<lparr>conn_ok = False, fail_executed = 1, pending = [],
        tick_buffer = [\<lparr>symbol = ''BTCUSDT'', timestamp = 100000, price = 100, size' = 2\<rparr>,
                       \<lparr>symbol = ''BTCUSDT'', timestamp = 900000, price = 101, size' = 3\<rparr>],
        last_flush = 0, ticks_table = [], ohlc_table = Map.empty, db_log = []\<rparr>)\<lparr>conn_ok := True\<rparr>)) = []
   \<and> conn_ok \<lparr>conn_ok = True, fail_executed = 0, pending = [],
        tick_buffer = [\<lparr>symbol = ''BTCUSDT'', timestamp = 100000, price = 100, size' = 2\<rparr>,
                       \<lparr>symbol = ''BTCUSDT'', timestamp = 900000, price = 101, size' = 3\<rparr>],
        last_flush = 0, ticks_table = [], ohlc_table = Map.empty, db_log = []\<rparr>
   \<and> tick_buffer (flush_ticks 2000000 \<lparr>conn_ok = True, fail_executed = 0, pending = [],
        tick_buffer = [\<lparr>symbol = ''BTCUSDT'', timestamp = 100000, price = 100, size' = 2\<rparr>,
                       \<lparr>symbol = ''BTCUSDT'', timestamp = 900000, price = 101, size' = 3\<rparr>],
        last_flush = 0, ticks_table = [], ohlc_table = Map.empty, db_log = []\<rparr>) = []
   \<and> ticks_table (flush_ticks 2000000 \<lparr>conn_ok = True, fail_executed = 0, pending = [],
        tick_buffer = [\<lparr>symbol = ''BTCUSDT'', timestamp = 100000, price = 100, size' = 2\<rparr>,
                       \<lparr>symbol = ''BTCUSDT'', timestamp = 900000, price = 101, size' = 3\<rparr>],
        last_flush = 0, ticks_table = [], ohlc_table = Map.empty, db_log = []\<rparr>)
       = [(''BTCUSDT'', 100000, 100, 2), (''BTCUSDT'', 900000, 101, 3)]"
  using flush_failure_keeps_buffer
    [of "\<lparr>conn_ok = False, fail_executed = 1, pending = [],
        tick_buffer = [\<lparr>symbol = ''BTCUSDT'', timestamp = 100000, price = 100, size' = 2\<rparr>,
                       \<lparr>symbol = ''BTCUSDT'', timestamp = 900000, price = 101, size' = 3\<rparr>],
        last_flush = 0, ticks_table = [], ohlc_table = Map.empty, db_log = []\<rparr>" 2000000 3000000]
    flush_failure_keeps_buffer
    [of "\<lparr>conn_ok = True, fail_executed = 0, pending = [],
        tick_buffer = [\<lparr>symbol = ''BTCUSDT'', timestamp = 100000, price = 100, size' = 2\<rparr>,
                       \<lparr>symbol = ''BTCUSDT'', timestamp = 900000, price = 101, size' = 3\<rparr>],
        last_flush = 0, ticks_table = [], ohlc_table = Map.empty, db_log = []\<rparr>" 2000000 3000000]
  by (simp add: flush_ticks_def execute_and_commit_def commit_def Let_def tick_row_of_def)

text \<open>
  C4. One trade processed by a new resampler, then \<^verbatim>\<open>flush_remaining\<close>: the bar of the
  open bucket is persisted, and the bucket is still in the buffers.
\<close>

theorem flush_remaining_keeps_buckets:
  "buffers (flush_remaining (process_tick 200000 (new_resampler (new_database 0) [''1s''])
       \<lparr>symbol = ''BTCUSDT'', timestamp = 100000, price = 100, size' = 2\<rparr>))
     = [(''BTCUSDT'', [(''1s'', [(0, [\<lparr>symbol = ''BTCUSDT'', timestamp = 100000, price = 100, size' = 2\<rparr>])])])]
   \<and> bucket_keys (flush_remaining (process_tick 200000 (new_resampler (new_database 0) [''1s''])
       \<lparr>symbol = ''BTCUSDT'', timestamp = 100000, price = 100, size' = 2\<rparr>)) ''BTCUSDT'' ''1s'' = {0}
   \<and> ohlc_table (db (flush_remaining (process_tick 200000 (new_resampler (new_database 0) [''1s''])
       \<lparr>symbol = ''BTCUSDT'', timestamp = 100000, price = 100, size' = 2\<rparr>))) (''BTCUSDT'', ''1s'', 0)
     = Some \<lparr>o_symbol = ''BTCUSDT'', o_interval = ''1s'', o_timestamp = 0, o_open = 100,
             o_high = 100, o_low = 100, o_close = 100, o_volume = 2, o_trade_count = 1\<rparr>"
  by (simp add: flush_remaining_def process_tick_def new_resampler_def new_database_def
      insert_tick_def flush_ticks_def TICK_BATCH_SIZE_def TICK_BATCH_TIMEOUT_def Let_def
      process_tick_for_interval_def finalize_completed_buckets_def get_interval_bucket_def
      replace_microsecond_def dd_get_def bucket_keys_def flush_bucket_def compute_ohlc_def
      insert_ohlc_def execute_and_commit_def commit_def)

section \<open>Ingestion queue: results\<close>

text \<open>
  C8. For a symbol with a queue and a counter: on a full queue the arriving trade is
  dropped, queues and counters are unchanged and a warning is logged; otherwise the trade
  is appended and the counter is incremented by one. With capacity 2 and three trades and
  no consumer, the first two are retained and the counter reads 2.
\<close>

theorem full_queue_drops_and_counts_enqueued:
  "(queues c symb = Some q \<and> tick_counts c symb = Some n \<longrightarrow>
      (queue_full (maxsize c) q \<longrightarrow>
         queues (handle_message c symb (TradeEvent trade)) = queues c
         \<and> tick_counts (handle_message c symb (TradeEvent trade)) = tick_counts c
         \<and> ws_log (handle_message c symb (TradeEvent trade))
             = ws_log c @ [LogWarning ''Queue full, dropping tick''])
      \<and> (\<not> queue_full (maxsize c) q \<longrightarrow>
         queues (handle_message c symb (TradeEvent trade)) = (queues c)(symb \<mapsto> q @ [trade])
         \<and> tick_counts (handle_message c symb (TradeEvent trade)) = (tick_counts c)(symb \<mapsto> n + 1)))
   \<and> queues (handle_messages (new_client 2 [symb]) symb
         [TradeEvent t1, TradeEvent t2, TradeEvent t3]) symb = Some [t1, t2]
   \<and> tick_counts (handle_messages (new_client 2 [symb]) symb
         [TradeEvent t1, TradeEvent t2, TradeEvent t3]) symb = Some 2"
  by (simp add: handle_message_def new_client_def queue_full_def Let_def)

theorem full_queue_drops_and_counts_enqueued_witness:
  "queue_full 2 [\<lparr>symbol = ''BTCUSDT'', timestamp = 100000, price = 100, size' = 2\<rparr>,
                 \<lparr>symbol = ''BTCUSDT'', timestamp = 900000, price = 101, size' = 3\<rparr>]
   \<and> queues (handle_message
        \<lparr>symbols = [''btcusdt''],
         queues = [''btcusdt'' \<mapsto> [\<lparr>symbol = ''BTCUSDT'', timestamp = 100000, price = 100, size' = 2\<rparr>,
                 \<lparr>symbol = ''BTCUSDT'', timestamp = 900000, price = 101, size' = 3\<rparr>]],
         tick_counts = [''btcusdt'' \<mapsto> 2], maxsize = 2, ws_log = []\<rparr> ''btcusdt''
        (TradeEvent \<lparr>symbol = ''BTCUSDT'', timestamp = 1200000, price = 102, size' = 1\<rparr>)) ''btcusdt''
     = Some [\<lparr>symbol = ''BTCUSDT'', timestamp = 100000, price = 100, size' = 2\<rparr>,
                 \<lparr>symbol = ''BTCUSDT'', timestamp = 900000, price = 101, size' = 3\<rparr>]
   \<and> tick_counts (handle_message
        \<lparr>symbols = [''btcusdt''],
         queues = [''btcusdt'' \<mapsto> [\<lparr>symbol = ''BTCUSDT'', timestamp = 100000, price = 100, size' = 2\<rparr>,
                 \<lparr>symbol = ''BTCUSDT'', timestamp = 900000, price = 101, size' = 3\<rparr>]],
         tick_counts = [''btcusdt'' \<mapsto> 2], maxsize = 2, ws_log = []\<rparr> ''btcusdt''
        (TradeEvent \<lparr>symbol = ''BTCUSDT'', timestamp = 1200000, price = 102, size' = 1\<rparr>)) ''btcusdt''
     = Some 2
   \<and> \<not> queue_full 2 [\<lparr>symbol = ''BTCUSDT'', timestamp = 100000, price = 100, size' = 2\<rparr>]
   \<and> tick_counts (handle_message
        \<lparr>symbols = [''btcusdt''],
         queues = [''btcusdt'' \<mapsto> [\<lparr>symbol = ''BTCUSDT'', timestamp = 100000, price = 100, size' = 2\<rparr>]],
         tick_counts = [''btcusdt'' \<mapsto> 1], maxsize = 2, ws_log = []\<rparr> ''btcusdt''
        (TradeEvent \<lparr>symbol = ''BTCUSDT'', timestamp = 900000, price = 101, size' = 3\<rparr>)) ''btcusdt''
     = Some 2"
  using full_queue_drops_and_counts_enqueued
    [of "\<lparr>symbols = [''btcusdt''],
         queues = [''btcusdt'' \<mapsto> [\<lparr>symbol = ''BTCUSDT'', timestamp = 100000, price = 100, size' = 2\<rparr>,
                 \<lparr>symbol = ''BTCUSDT'', timestamp = 900000, price = 101, size' = 3\<rparr>]],
         tick_counts = [''btcusdt'' \<mapsto> 2], maxsize = 2, ws_log = []\<rparr>" "''btcusdt''"
        "[\<lparr>symbol = ''BTCUSDT'', timestamp = 100000, price = 100, size' = 2\<rparr>,
                 \<lparr>symbol = ''BTCUSDT'', timestamp = 900000, price = 101, size' = 3\<rparr>]" 2
        "\<lparr>symbol = ''BTCUSDT'', timestamp = 1200000, price = 102, size' = 1\<rparr>"]
    full_queue_drops_and_counts_enqueued
    [of "\<lparr>symbols = [''btcusdt''],
         queues = [''btcusdt'' \<mapsto> [\<lparr>symbol = ''BTCUSDT'', timestamp = 100000, price = 100, size' = 2\<rparr>]],
         tick_counts = [''btcusdt'' \<mapsto> 1], maxsize = 2, ws_log = []\<rparr>" "''btcusdt''"
        "[\<lparr>symbol = ''BTCUSDT'', timestamp = 100000, price = 100, size' = 2\<rparr>]" 1
        "\<lparr>symbol = ''BTCUSDT'', timestamp = 900000, price = 101, size' = 3\<rparr>"]
  by (simp add: queue_full_def)


section \<open>Z-score: results\<close>

lemma rolling_warmup: "Suc i < w \<Longrightarrow> rolling_mean values w i = NaN"
  by (simp add: rolling_mean_def Let_def)

text \<open>
  C7. For every input and every window \<open>w \<ge> 1\<close> the output of \<^verbatim>\<open>compute_zscore\<close> has the
  length of the input, and for an input of length at least \<open>w\<close> the first \<open>w - 1\<close> entries
  are NaN.
\<close>

theorem compute_zscore_length_and_warmup:
  "1 \<le> w \<longrightarrow>
     length (compute_zscore values w) = length values
     \<and> (w \<le> length values \<longrightarrow> (\<forall>i < w - 1. compute_zscore values w ! i = NaN))"
proof (intro impI conjI allI)
  show "length (compute_zscore values w) = length values"
    by (simp add: compute_zscore_def)
next
  fix i
  assume w: "w \<le> length values" and i: "i < w - 1"
  then have il: "i < length values" and iw: "Suc i < w" by auto
  have "compute_zscore values w ! i
      = pf_div (pf_sub (of_input (values ! i)) (rolling_mean values w i)) (rolling_std values w i)"
    using w il by (simp add: compute_zscore_def)
  also have "\<dots> = NaN"
    using rolling_warmup[OF iw, of "values"] by (cases "of_input (values ! i)") simp_all
  finally show "compute_zscore values w ! i = NaN" .
qed

theorem compute_zscore_length_and_warmup_witness:
  "(1::nat) \<le> 3 \<and> (3::nat) \<le> length [Some 100, Some 102, Some 98, Some (105::real)]
   \<and> length (compute_zscore [Some 100, Some 102, Some 98, Some 105] 3) = 4
   \<and> compute_zscore [Some 100, Some 102, Some 98, Some 105] 3 ! 0 = NaN
   \<and> compute_zscore [Some 100, Some 102, Some 98, Some 105] 3 ! 1 = NaN
   \<and> compute_zscore [Some 100, Some 102, Some 98, Some 105] 3 ! 2 = Num (- 1)"
proof -
  have *: "\<forall>i<2. compute_zscore [Some 100, Some 102, Some 98, Some 105] 3 ! i = NaN"
    and l: "length (compute_zscore [Some 100, Some 102, Some 98, Some 105] 3) = 4"
    using compute_zscore_length_and_warmup[of 3 "[Some 100, Some 102, Some 98, Some 105]"]
    by simp_all
  have z: "compute_zscore [Some 100, Some 102, Some 98, Some 105] 3 ! 2 = Num (- 1)"
    by (simp add: compute_zscore_def rolling_mean_def rolling_std_def window_at_def valid_obs_def
        of_input_def Let_def power2_eq_square real_sqrt_divide numeral_3_eq_3 upt_rec)
  from * l z show ?thesis by simp
qed

section \<open>Regression gates and correlation matrix: results\<close>

text \<open>
  C6. Whatever the fit, \<^verbatim>\<open>compute_ols_hedge_ratio\<close> returns no result when one of the
  gates fails (\<open>\<bar>\<beta>\<bar> > 3\<close>, \<open>R\<^sup>2 < 0.3\<close>, standard error \<open>> \<bar>\<beta>\<bar>\<close>), so a result it returns
  passes all three; and when the regression is computed (no valid cached entry, or a
  forced refresh) and the fitted \<open>\<bar>\<beta>\<bar>\<close> is 5, \<^verbatim>\<open>get_pairs_analytics\<close> returns no result
  and leaves the cache as it was.
\<close>

theorem regression_gates_reject:
  "(\<bar>lr_slope (linregress rx ry)\<bar> > 3 \<or> (lr_rvalue (linregress rx ry))\<^sup>2 < 0.3
      \<or> lr_stderr (linregress rx ry) > \<bar>lr_slope (linregress rx ry)\<bar> \<longrightarrow>
      compute_ols_hedge_ratio linregress now symbol_x symbol_y interval (Some (rx, ry)) = None)
   \<and> (compute_ols_hedge_ratio linregress now symbol_x symbol_y interval returns = Some res \<longrightarrow>
      \<bar>rr_hedge_ratio res\<bar> \<le> 3 \<and> rr_r_squared res \<ge> 0.3
      \<and> rr_std_error res \<le> \<bar>rr_hedge_ratio res\<bar>)
   \<and> ((force_refresh
        \<or> get_cached e now (get_cache_key ''pairs_analytics'' [symbol_x, symbol_y, interval])
             CACHE_TTL_REGRESSION = None)
       \<and> an_returns an symbol_x symbol_y interval = Some (rx, ry)
       \<and> \<bar>lr_slope (an_linregress an rx ry)\<bar> = 5 \<longrightarrow>
      get_pairs_analytics an e now symbol_x symbol_y interval force_refresh = (None, e))"
proof (intro conjI impI)
  assume "\<bar>lr_slope (linregress rx ry)\<bar> > 3 \<or> (lr_rvalue (linregress rx ry))\<^sup>2 < 0.3
      \<or> lr_stderr (linregress rx ry) > \<bar>lr_slope (linregress rx ry)\<bar>"
  then show "compute_ols_hedge_ratio linregress now symbol_x symbol_y interval (Some (rx, ry)) = None"
    by (auto simp: compute_ols_hedge_ratio_def Let_def)
next
  assume a: "compute_ols_hedge_ratio linregress now symbol_x symbol_y interval returns = Some res"
  then obtain rx' ry' where r: "returns = Some (rx', ry')"
    by (cases returns) (auto simp: compute_ols_hedge_ratio_def)
  from a show "\<bar>rr_hedge_ratio res\<bar> \<le> 3" unfolding r
    by (auto simp: compute_ols_hedge_ratio_def Let_def split: if_splits)
  from a show "rr_r_squared res \<ge> 0.3" unfolding r
    by (auto simp: compute_ols_hedge_ratio_def Let_def split: if_splits)
  from a show "rr_std_error res \<le> \<bar>rr_hedge_ratio res\<bar>" unfolding r
    by (auto simp: compute_ols_hedge_ratio_def Let_def split: if_splits)
next
  assume a: "(force_refresh
        \<or> get_cached e now (get_cache_key ''pairs_analytics'' [symbol_x, symbol_y, interval])
             CACHE_TTL_REGRESSION = None)
       \<and> an_returns an symbol_x symbol_y interval = Some (rx, ry)
       \<and> \<bar>lr_slope (an_linregress an rx ry)\<bar> = 5"
  then have reg: "compute_ols_hedge_ratio (an_linregress an) now symbol_x symbol_y interval
                     (an_returns an symbol_x symbol_y interval) = None"
    by (simp add: compute_ols_hedge_ratio_def Let_def)
  from a have "(if force_refresh then None
      else get_cached e now (get_cache_key ''pairs_analytics'' [symbol_x, symbol_y, interval])
             CACHE_TTL_REGRESSION) = None"
    by auto
  then show "get_pairs_analytics an e now symbol_x symbol_y interval force_refresh = (None, e)"
    using reg by (simp add: get_pairs_analytics_def Let_def)
qed

theorem regression_gates_reject_witness:
  "\<bar>lr_slope \<lparr>lr_slope = 5, lr_intercept = 0, lr_rvalue = 1, lr_pvalue = 0, lr_stderr = 0\<rparr>\<bar> > 3
   \<and> compute_ols_hedge_ratio
        (\<lambda>xs ys. \<lparr>lr_slope = 5, lr_intercept = 0, lr_rvalue = 1, lr_pvalue = 0, lr_stderr = 0\<rparr>)
        0 ''BTCUSDT'' ''ETHUSDT'' ''1m'' (Some ([1, 2], [5, 10])) = None
   \<and> get_pairs_analytics
        \<lparr>an_returns = (\<lambda>x y i. Some ([1, 2], [5, 10])),
         an_linregress = (\<lambda>xs ys. \<lparr>lr_slope = 5, lr_intercept = 0, lr_rvalue = 1,
                                     lr_pvalue = 0, lr_stderr = 0\<rparr>),
         an_spread = (\<lambda>x y h i. []), an_adf = (\<lambda>xs. None :: unit option),
         an_corr = (\<lambda>x y i. None :: unit option)\<rparr>
        \<lparr>cache = Map.empty, cache_time = Map.empty\<rparr> 0 ''BTCUSDT'' ''ETHUSDT'' ''1m'' False
      = (None, \<lparr>cache = Map.empty, cache_time = Map.empty\<rparr>)"
  using regression_gates_reject
    [of "\<lambda>xs ys. \<lparr>lr_slope = 5, lr_intercept = 0, lr_rvalue = 1, lr_pvalue = 0, lr_stderr = 0\<rparr>"
        "[1, 2]" "[5, 10]" 0 "''BTCUSDT''" "''ETHUSDT''" "''1m''" None undefined False
        "\<lparr>cache = Map.empty, cache_time = Map.empty\<rparr>"
        "\<lparr>an_returns = (\<lambda>x y i. Some ([1, 2], [5, 10])),
         an_linregress = (\<lambda>xs ys. \<lparr>lr_slope = 5, lr_intercept = 0, lr_rvalue = 1,
                                     lr_pvalue = 0, lr_stderr = 0\<rparr>),
         an_spread = (\<lambda>x y h i. []), an_adf = (\<lambda>xs. None :: unit option),
         an_corr = (\<lambda>x y i. None :: unit option)\<rparr>"]
  by (simp add: get_cached_def is_cache_valid_def)

text \<open>
  C10. Two symbols with two bars each and window 2, sharing one timestamp only (minute 2):
  the columns of the data frame are each symbol's own last two closes, taken at minutes
  1, 2 for the first symbol and at minutes 2, 3 for the second, and correlated by
  position.
\<close>

theorem correlation_matrix_pairs_by_position:
  "compute_correlation_matrix
     (\<lambda>s. if s = ''A'' then
             [\<lparr>o_symbol = ''A'', o_interval = ''1m'', o_timestamp = 60000000, o_open = 10,
               o_high = 10, o_low = 10, o_close = 10, o_volume = 1, o_trade_count = 1\<rparr>,
              \<lparr>o_symbol = ''A'', o_interval = ''1m'', o_timestamp = 120000000, o_open = 20,
               o_high = 20, o_low = 20, o_close = 20, o_volume = 1, o_trade_count = 1\<rparr>]
           else if s = ''B'' then
             [\<lparr>o_symbol = ''B'', o_interval = ''1m'', o_timestamp = 120000000, o_open = 5,
               o_high = 5, o_low = 5, o_close = 5, o_volume = 1, o_trade_count = 1\<rparr>,
              \<lparr>o_symbol = ''B'', o_interval = ''1m'', o_timestamp = 180000000, o_open = 7,
               o_high = 7, o_low = 7, o_close = 7, o_volume = 1, o_trade_count = 1\<rparr>]
           else [])
     [''A'', ''B''] 2
   = Some [(''A'', [10, 20]), (''B'', [5, 7])]
   \<and> column_timestamps (restrict_price_data (collect_price_data
     (\<lambda>s. if s = ''A'' then
             [\<lparr>o_symbol = ''A'', o_interval = ''1m'', o_timestamp = 60000000, o_open = 10,
               o_high = 10, o_low = 10, o_close = 10, o_volume = 1, o_trade_count = 1\<rparr>,
              \<lparr>o_symbol = ''A'', o_interval = ''1m'', o_timestamp = 120000000, o_open = 20,
               o_high = 20, o_low = 20, o_close = 20, o_volume = 1, o_trade_count = 1\<rparr>]
           else if s = ''B'' then
             [\<lparr>o_symbol = ''B'', o_interval = ''1m'', o_timestamp = 120000000, o_open = 5,
               o_high = 5, o_low = 5, o_close = 5, o_volume = 1, o_trade_count = 1\<rparr>,
              \<lparr>o_symbol = ''B'', o_interval = ''1m'', o_timestamp = 180000000, o_open = 7,
               o_high = 7, o_low = 7, o_close = 7, o_volume = 1, o_trade_count = 1\<rparr>]
           else [])
     2 [''A'', ''B''] [])) 2 ''A'' = [60000000, 120000000]
   \<and> column_timestamps (restrict_price_data (collect_price_data
     (\<lambda>s. if s = ''A'' then
             [\<lparr>o_symbol = ''A'', o_interval = ''1m'', o_timestamp = 60000000, o_open = 10,
               o_high = 10, o_low = 10, o_close = 10, o_volume = 1, o_trade_count = 1\<rparr>,
              \<lparr>o_symbol = ''A'', o_interval = ''1m'', o_timestamp = 120000000, o_open = 20,
               o_high = 20, o_low = 20, o_close = 20, o_volume = 1, o_trade_count = 1\<rparr>]
           else if s = ''B'' then
             [\<lparr>o_symbol = ''B'', o_interval = ''1m'', o_timestamp = 120000000, o_open = 5,
               o_high = 5, o_low = 5, o_close = 5, o_volume = 1, o_trade_count = 1\<rparr>,
              \<lparr>o_symbol = ''B'', o_interval = ''1m'', o_timestamp = 180000000, o_open = 7,
               o_high = 7, o_low = 7, o_close = 7, o_volume = 1, o_trade_count = 1\<rparr>]
           else [])
     2 [''A'', ''B''] [])) 2 ''B'' = [120000000, 180000000]"
  by (simp add: compute_correlation_matrix_def Let_def dict_of_def restrict_price_data_def
      common_timestamps_def df_dict_def column_timestamps_def last_n_def dd_get_def)

section \<open>Cache keys: results\<close>

text \<open>
  C9. Distinct (category, argument tuple) pairs would need distinct cache keys. The code
  joins the arguments with an underscore, so the one argument \<open>A_B\<close> and the two
  arguments \<open>A\<close>, \<open>B\<close> give the same key under the same category, and so do the argument
  triples of two different pairs queries of \<^verbatim>\<open>get_pairs_analytics\<close>.
\<close>

theorem get_cache_key_collision:
  "get_cache_key ''pairs_analytics'' [''A_B''] = get_cache_key ''pairs_analytics'' [''A'', ''B'']
   \<and> get_cache_key ''pairs_analytics'' [''A_B'', ''C'', ''1m'']
       = get_cache_key ''pairs_analytics'' [''A'', ''B_C'', ''1m'']
   \<and> (''pairs_analytics'', [''A_B'', ''C'', ''1m'']) \<noteq> (''pairs_analytics'', [''A'', ''B_C'', ''1m''])"
  by (simp add: get_cache_key_def)

end
